theory Spec2Isabelle
  imports Complex_Main "HOL-Library.Sublist"
begin

section \<open>Python strings\<close>

text \<open>
  A Python \<open>str\<close> is modelled as a \<open>string\<close>; each \<open>char\<close> stands for one code
  point below 256. Exceptions are values of \<open>py_error\<close>, and a call that may raise
  returns \<open>py_error + 'a\<close>.
\<close>

datatype py_error =
  IndexError | ValueError | KeyError | UnboundLocalError | AttributeError | RuntimeError string

text \<open>\<open>str.isspace\<close> on one code point below 256.\<close>

definition isspace :: "char \<Rightarrow> bool" where
  "isspace c = (of_char c \<in> {9, 10, 11, 12, 13, 28, 29, 30, 31, 32, 133, 160 :: nat})"

text \<open>\<open>s.strip()\<close>: leading and trailing whitespace removed.\<close>

definition strip :: "string \<Rightarrow> string" where
  "strip s = rev (dropWhile isspace (rev (dropWhile isspace s)))"

text \<open>
  \<open>s.split(sep)\<close> scans from the left, cutting at every occurrence of \<open>sep\<close> that does
  not overlap the previous one; \<open>cur\<close> holds the current piece, reversed. An empty
  separator raises \<open>ValueError\<close>.
\<close>

function split_from :: "'a list \<Rightarrow> 'a list \<Rightarrow> 'a list \<Rightarrow> 'a list list" where
  "split_from sep cur [] = [rev cur]"
| "split_from sep cur (c # s) =
     (if sep \<noteq> [] \<and> prefix sep (c # s)
      then rev cur # split_from sep [] (drop (length sep) (c # s))
      else split_from sep (c # cur) s)"
  by pat_completeness auto
termination
  by (relation "measure (\<lambda>(sep, cur, s). length s)") (auto simp: neq_Nil_conv)

definition split :: "'a list \<Rightarrow> 'a list \<Rightarrow> py_error + 'a list list" where
  "split s sep = (if sep = [] then Inl ValueError else Inr (split_from sep [] s))"

text \<open>\<open>sep in s\<close>, and the number of positions of \<open>s\<close> at which \<open>sep\<close> occurs.\<close>

fun contains :: "'a list \<Rightarrow> 'a list \<Rightarrow> bool" where
  "contains sep [] = (sep = [])"
| "contains sep (c # s) = (prefix sep (c # s) \<or> contains sep s)"

fun count_occ :: "'a list \<Rightarrow> 'a list \<Rightarrow> nat" where
  "count_occ sep [] = (if sep = [] then 1 else 0)"
| "count_occ sep (c # s) = (if prefix sep (c # s) then 1 else 0) + count_occ sep s"

section \<open>The prompter of \<open>gradio_qlora_webserver.py\<close>\<close>

text \<open>
  A prompt template is a format string: literal text and replacement fields.
  \<open>str.format\<close> with keyword arguments fills each field from the arguments given and
  raises \<open>KeyError\<close> for a field that has none; arguments without a field are ignored.
\<close>

datatype piece = Lit string | Field string

fun format :: "piece list \<Rightarrow> (string \<rightharpoonup> string) \<Rightarrow> py_error + string" where
  "format [] args = Inr []"
| "format (Lit t # ps) args =
     (case format ps args of Inl e \<Rightarrow> Inl e | Inr r \<Rightarrow> Inr (t @ r))"
| "format (Field f # ps) args =
     (case args f of None \<Rightarrow> Inl KeyError
      | Some v \<Rightarrow> (case format ps args of Inl e \<Rightarrow> Inl e | Inr r \<Rightarrow> Inr (v @ r)))"

record prompt_dict =
  prompt_input :: "piece list"
  prompt_no_input :: "piece list"

definition ALPACA_PROMPT_DICT :: prompt_dict where
  "ALPACA_PROMPT_DICT = \<lparr>
     prompt_input =
       [Lit (''Below is an instruction that describes a task, paired with an input that provides further context. ''
             @ ''Write a response that appropriately completes the request.'' @ [CHR 10, CHR 10]
             @ ''### Instruction:'' @ [CHR 10]),
        Field ''instruction'',
        Lit ([CHR 10, CHR 10] @ ''### Input:'' @ [CHR 10]),
        Field ''input'',
        Lit ([CHR 10, CHR 10] @ ''### Response:'')],
     prompt_no_input =
       [Lit (''Below is an instruction that describes a task. ''
             @ ''Write a response that appropriately completes the request.'' @ [CHR 10, CHR 10]
             @ ''### Instruction:'' @ [CHR 10]),
        Field ''instruction'',
        Lit ([CHR 10, CHR 10] @ ''### Response:'')] \<rparr>"

definition PROMPT_DICT :: prompt_dict where
  "PROMPT_DICT = \<lparr>
     prompt_input = [Field ''instruction'', Lit ([CHR 10, CHR 10] @ ''### Response:'')],
     prompt_no_input = [Field ''instruction'', Lit ([CHR 10, CHR 10] @ ''### Response:'')] \<rparr>"

record prompter =
  dict :: prompt_dict
  reponse_split :: string

text \<open>\<open>Prompter.__init__\<close>: the argument is the template's name, or \<open>None\<close>.\<close>

definition Prompter :: "string option \<Rightarrow> prompter" where
  "Prompter prompt_template =
     \<lparr> dict = (if prompt_template = Some ''alpaca'' then ALPACA_PROMPT_DICT else PROMPT_DICT),
       reponse_split = ''### Response:'' \<rparr>"

text \<open>
  \<open>Prompter.generate_prompt\<close>. \<open>if response:\<close> is false for \<open>None\<close> and for the
  empty string.
\<close>

definition generate_prompt ::
  "prompter \<Rightarrow> string \<Rightarrow> string option \<Rightarrow> string option \<Rightarrow> py_error + string" where
  "generate_prompt self instruction input response =
     (case (case input of
              Some i \<Rightarrow> format (prompt_input (dict self))
                          [''instruction'' \<mapsto> instruction, ''input'' \<mapsto> i]
            | None \<Rightarrow> format (prompt_no_input (dict self)) [''instruction'' \<mapsto> instruction]) of
        Inl e \<Rightarrow> Inl e
      | Inr prompt_text \<Rightarrow>
          (case response of
             Some r \<Rightarrow> if r \<noteq> [] then Inr (prompt_text @ r) else Inr prompt_text
           | None \<Rightarrow> Inr prompt_text))"

text \<open>
  \<open>Prompter.get_response\<close>: \<open>output.split(self.reponse_split)[1].strip()\<close>; the index
  raises \<open>IndexError\<close> when the separator does not occur.
\<close>

definition get_response :: "prompter \<Rightarrow> string \<Rightarrow> py_error + string" where
  "get_response self output =
     (case split output (reponse_split self) of
        Inl e \<Rightarrow> Inl e
      | Inr parts \<Rightarrow> if 1 < length parts then Inr (strip (parts ! 1)) else Inl IndexError)"


section \<open>More of Python's strings and integers\<close>

text \<open>\<open>s.startswith(p)\<close>.\<close>

definition startswith :: "string \<Rightarrow> string \<Rightarrow> bool" where
  "startswith s p = prefix p s"

text \<open>
  \<open>s.replace(old, new)\<close> replaces, from the left, every occurrence of \<open>old\<close> that does
  not overlap the previous one; for an empty \<open>old\<close> it puts \<open>new\<close> before every
  character and at the end.
\<close>

function replace_from :: "string \<Rightarrow> string \<Rightarrow> string \<Rightarrow> string" where
  "replace_from old new [] = []"
| "replace_from old new (c # s) =
     (if old \<noteq> [] \<and> prefix old (c # s)
      then new @ replace_from old new (drop (length old) (c # s))
      else c # replace_from old new s)"
  by pat_completeness auto
termination
  by (relation "measure (\<lambda>(old, new, s). length s)") (auto simp: neq_Nil_conv)

definition replace :: "string \<Rightarrow> string \<Rightarrow> string \<Rightarrow> string" where
  "replace s old new =
     (if old = [] then new @ concat (map (\<lambda>c. c # new) s) else replace_from old new s)"

definition is_digit :: "char \<Rightarrow> bool" where
  "is_digit c = (48 \<le> (of_char c :: nat) \<and> (of_char c :: nat) \<le> 57)"

definition digit_val :: "char \<Rightarrow> int" where
  "digit_val c = int (of_char c) - 48"

text \<open>
  The digits of a decimal literal as \<open>int\<close> reads them: at least one digit, and single
  underscores only between two digits.
\<close>

fun digits_ok :: "string \<Rightarrow> bool" where
  "digits_ok [] = False"
| "digits_ok [c] = is_digit c"
| "digits_ok (c # d # s) =
     (is_digit c \<and> (if d = CHR ''_'' then digits_ok s else digits_ok (d # s)))"

definition digits_value :: "string \<Rightarrow> int" where
  "digits_value s = foldl (\<lambda>acc c. 10 * acc + digit_val c) 0 (filter is_digit s)"

text \<open>
  \<open>int(s)\<close> for a string, base ten: whitespace around the literal is ignored, one sign
  may precede the digits, anything else raises \<open>ValueError\<close>. The whitespace of \<open>int\<close>
  is narrower than that of \<open>str.strip\<close>: tab to carriage return, the space, and the
  two spaces above 127; the separators 28 to 31 are not part of it. (The interpreter's
  limit of 4300 digits is left out: a file name has at most 255 characters.)
\<close>

definition int_space :: "char \<Rightarrow> bool" where
  "int_space c = (of_char c \<in> {9, 10, 11, 12, 13, 32, 133, 160 :: nat})"

definition int_strip :: "string \<Rightarrow> string" where
  "int_strip s = rev (dropWhile int_space (rev (dropWhile int_space s)))"

definition py_int :: "string \<Rightarrow> py_error + int" where
  "py_int s =
     (case int_strip s of
        [] \<Rightarrow> Inl ValueError
      | c # r \<Rightarrow>
          if c = CHR ''-'' then (if digits_ok r then Inr (- digits_value r) else Inl ValueError)
          else if c = CHR ''+'' then (if digits_ok r then Inr (digits_value r) else Inl ValueError)
          else (if digits_ok (c # r) then Inr (digits_value (c # r)) else Inl ValueError))"

text \<open>\<open>str(n)\<close>, as an f-string prints an integer.\<close>

definition digit_char :: "nat \<Rightarrow> char" where
  "digit_char d = ''0123456789'' ! d"

function digits_of_nat :: "nat \<Rightarrow> string" where
  "digits_of_nat n =
     (if n < 10 then [digit_char n] else digits_of_nat (n div 10) @ [digit_char (n mod 10)])"
  by pat_completeness auto
termination
  by (relation "measure id") auto

definition str_int :: "int \<Rightarrow> string" where
  "str_int i = (if i < 0 then CHR ''-'' # digits_of_nat (nat (- i)) else digits_of_nat (nat i))"

section \<open>\<open>get_last_checkpoint\<close> of \<open>model_utils.py\<close>\<close>

text \<open>
  The file system as the function sees it: what a path names, and the entries of a
  directory. \<open>os.listdir\<close> is only called on a path for which \<open>isdir\<close> holds.
\<close>

datatype kind = RegularFile | Directory

record filesystem =
  stat :: "string \<Rightarrow> kind option"
  listdir :: "string \<Rightarrow> string list"

definition isdir :: "filesystem \<Rightarrow> string \<Rightarrow> bool" where
  "isdir fs p = (stat fs p = Some Directory)"

definition exists_path :: "filesystem \<Rightarrow> string \<Rightarrow> bool" where
  "exists_path fs p = (stat fs p \<noteq> None)"

text \<open>\<open>os.path.join\<close> of two components, on POSIX.\<close>

definition join :: "string \<Rightarrow> string \<Rightarrow> string" where
  "join a b =
     (if startswith b ''/'' then b
      else if a = [] \<or> suffix ''/'' a then a @ b
      else a @ ''/'' @ b)"

text \<open>The loop over \<open>os.listdir(checkpoint_dir)\<close>; \<open>int\<close> may raise.\<close>

fun scan_steps :: "filesystem \<Rightarrow> string \<Rightarrow> int \<Rightarrow> string list \<Rightarrow> py_error + int" where
  "scan_steps fs checkpoint_dir max_step [] = Inr max_step"
| "scan_steps fs checkpoint_dir max_step (filename # rest) =
     (if isdir fs (join checkpoint_dir filename) \<and> startswith filename ''checkpoint''
      then (case py_int (replace filename ''checkpoint-'' []) of
              Inl e \<Rightarrow> Inl e
            | Inr n \<Rightarrow> scan_steps fs checkpoint_dir (max max_step n) rest)
      else scan_steps fs checkpoint_dir max_step rest)"

definition get_last_checkpoint ::
  "filesystem \<Rightarrow> string \<Rightarrow> py_error + (string option \<times> bool)" where
  "get_last_checkpoint fs checkpoint_dir =
     (if isdir fs checkpoint_dir then
        (let is_completed = exists_path fs (join checkpoint_dir ''completed'') in
         if is_completed then Inr (None, True)
         else (case scan_steps fs checkpoint_dir 0 (listdir fs checkpoint_dir) of
                 Inl e \<Rightarrow> Inl e
               | Inr max_step \<Rightarrow>
                   if max_step = 0 then Inr (None, is_completed)
                   else Inr (Some (join checkpoint_dir (''checkpoint-'' @ str_int max_step)),
                             is_completed)))
      else Inr (None, False))"

section \<open>\<open>find_all_linear_names\<close> of \<open>model_utils.py\<close>\<close>

text \<open>
  A module tree: each module has a class and named children. The class is recorded as
  the one of the three linear classes the module is an instance of, or none.
  \<open>named_modules\<close> lists the module itself under the prefix, then its children's
  modules under dotted names, as \<open>torch.nn.Module.named_modules\<close> does; the root's
  name is the empty string.
\<close>

datatype module_class = Linear4bit | Linear8bitLt | Linear | OtherModule

datatype nn_module = Module module_class "(string \<times> nn_module) list"

fun named_modules_from :: "string \<Rightarrow> nn_module \<Rightarrow> (string \<times> nn_module) list" where
  "named_modules_from pre (Module c kids) =
     (pre, Module c kids) #
     concat (map (\<lambda>(name, k). named_modules_from (pre @ (if pre \<noteq> [] then ''.'' else []) @ name) k)
               kids)"

definition named_modules :: "nn_module \<Rightarrow> (string \<times> nn_module) list" where
  "named_modules model = named_modules_from [] model"

fun class_of :: "nn_module \<Rightarrow> module_class" where
  "class_of (Module c kids) = c"

text \<open>
  The local variable \<open>cls\<close> is bound only in the branches for 4 and 8 bits: the last
  branch evaluates \<open>torch.nn.Linear\<close> and assigns nothing.
\<close>

definition choose_cls :: "int \<Rightarrow> module_class option" where
  "choose_cls bits =
     (if bits = 4 then Some Linear4bit
      else if bits = 8 then Some Linear8bitLt
      else None)"

text \<open>
  The loop over \<open>model.named_modules()\<close>; the set \<open>lora_module_names\<close> is a list
  without duplicates. Reading the unbound \<open>cls\<close> raises \<open>UnboundLocalError\<close>.
\<close>

fun collect_names ::
  "module_class option \<Rightarrow> string list \<Rightarrow> (string \<times> nn_module) list \<Rightarrow> py_error + string list" where
  "collect_names cls lora_module_names [] = Inr lora_module_names"
| "collect_names cls lora_module_names ((name, modl) # rest) =
     (case cls of
        None \<Rightarrow> Inl UnboundLocalError
      | Some k \<Rightarrow>
          if class_of modl = k
          then (case split name ''.'' of
                  Inl e \<Rightarrow> Inl e
                | Inr names \<Rightarrow>
                    collect_names cls
                      (List.insert (if length names = 1 then names ! 0 else last names)
                         lora_module_names) rest)
          else collect_names cls lora_module_names rest)"

definition find_all_linear_names :: "int \<Rightarrow> nn_module \<Rightarrow> py_error + string list" where
  "find_all_linear_names bits model =
     (case collect_names (choose_cls bits) [] (named_modules model) of
        Inl e \<Rightarrow> Inl e
      | Inr lora_module_names \<Rightarrow>
          Inr (if ''lm_head'' \<in> set lora_module_names
               then removeAll ''lm_head'' lora_module_names
               else lora_module_names))"

section \<open>Vocabulary and examples for the checkpoint scan and the layer names\<close>

text \<open>
  The subdirectories the loop of \<open>get_last_checkpoint\<close> looks at, a name of the form
  \<open>checkpoint-<s>\<close> with \<open>s\<close> a literal \<open>int\<close> accepts, and the step such a name
  carries.
\<close>

definition checkpoint_dirs :: "filesystem \<Rightarrow> string \<Rightarrow> string list" where
  "checkpoint_dirs fs d =
     filter (\<lambda>e. isdir fs (join d e) \<and> startswith e ''checkpoint'') (listdir fs d)"

definition well_named :: "string \<Rightarrow> bool" where
  "well_named e =
     (startswith e ''checkpoint-'' \<and>
      (case py_int (drop 11 e) of Inr n \<Rightarrow> True | Inl err \<Rightarrow> False))"

definition step_of :: "string \<Rightarrow> int" where
  "step_of e = (case py_int (drop 11 e) of Inr n \<Rightarrow> n | Inl err \<Rightarrow> 0)"

definition fs_zero :: filesystem where
  "fs_zero = \<lparr>
     stat = (\<lambda>p. if p = ''out'' \<or> p = ''out/checkpoint-0'' then Some Directory else None),
     listdir = (\<lambda>p. if p = ''out'' then [''checkpoint-0''] else []) \<rparr>"

definition fs_odd :: filesystem where
  "fs_odd = \<lparr>
     stat = (\<lambda>p. if p = ''out'' \<or> p = ''out/checkpoint-20'' \<or> p = ''out/checkpoints''
                  then Some Directory else None),
     listdir = (\<lambda>p. if p = ''out'' then [''checkpoint-20'', ''checkpoints''] else []) \<rparr>"

definition fs_two :: filesystem where
  "fs_two = \<lparr>
     stat = (\<lambda>p. if p = ''out'' \<or> p = ''out/checkpoint-20'' \<or> p = ''out/checkpoint-100''
                  then Some Directory
                  else if p = ''out/log'' then Some RegularFile else None),
     listdir = (\<lambda>p. if p = ''out'' then [''checkpoint-20'', ''log'', ''checkpoint-100''] else []) \<rparr>"

text \<open>A small quantised model: two projection layers and the output head.\<close>

definition example_model :: nn_module where
  "example_model =
     Module OtherModule
       [(''model'', Module OtherModule
           [(''layers'', Module OtherModule
               [(''0'', Module OtherModule
                   [(''q_proj'', Module Linear4bit []),
                    (''v_proj'', Module Linear4bit []),
                    (''norm'', Module OtherModule [])])])]),
        (''lm_head'', Module Linear4bit [])]"


section \<open>The input components of \<open>main\<close>\<close>

text \<open>
  The components of \<open>gr.Interface(fn=evaluate, inputs=[...])\<close>: for a slider, its
  minimum, maximum, step (when given) and initial value. A slider lets through its
  initial value and the values between minimum and maximum on the step grid; numbers
  are rationals.
\<close>

datatype component =
  Textbox string
| Slider rat rat "rat option" rat string
| Checkbox string

datatype ui_value = Text string | Number rat | Flag bool

definition is_integer :: "rat \<Rightarrow> bool" where
  "is_integer q = (of_int \<lfloor>q\<rfloor> = q)"

fun admits :: "component \<Rightarrow> ui_value \<Rightarrow> bool" where
  "admits (Textbox label) (Text s) = True"
| "admits (Slider minimum maximum step initial label) (Number v) =
     (v = initial \<or>
      (minimum \<le> v \<and> v \<le> maximum \<and>
       (case step of None \<Rightarrow> True | Some d \<Rightarrow> is_integer ((v - minimum) / d))))"
| "admits (Checkbox label) (Flag b) = True"
| "admits c v = False"

definition inputs :: "component list" where
  "inputs =
     [Textbox ''Instruction'',
      Textbox ''Input'',
      Slider 0 1 None 1 ''Temperature'',
      Slider 0 1 None 1 ''Top p'',
      Slider 0 100 (Some 1) 50 ''Top k'',
      Slider 1 4 (Some 1) 4 ''Beams'',
      Slider 16 1024 (Some 32) 128 ''Max new tokens'',
      Checkbox ''Stream output'']"

text \<open>The arguments of \<open>evaluate\<close>, and the call the interface makes with its values.\<close>

record sampling =
  temperature :: rat
  top_p :: rat
  top_k :: rat
  num_beams :: rat

record request = sampling +
  instruction :: string
  input :: "string option"
  max_new_tokens :: rat
  stream_output :: bool

fun request_of :: "ui_value list \<Rightarrow> request option" where
  "request_of [Text i, Text inp, Number t, Number p, Number k, Number b, Number m, Flag s] =
     Some \<lparr> temperature = t, top_p = p, top_k = k, num_beams = b,
            instruction = i, input = Some inp, max_new_tokens = m, stream_output = s \<rparr>"
| "request_of vs = None"

text \<open>
  The bounds the specification gives for a request, and the bounds with top-k from 0.
\<close>

definition spec_bounds :: "request \<Rightarrow> bool" where
  "spec_bounds r =
     (0 \<le> temperature r \<and> temperature r \<le> 1 \<and> 0 \<le> top_p r \<and> top_p r \<le> 1 \<and>
      is_integer (top_k r) \<and> 1 \<le> top_k r \<and>
      is_integer (num_beams r) \<and> 1 \<le> num_beams r \<and>
      is_integer (max_new_tokens r))"

definition ui_bounds :: "request \<Rightarrow> bool" where
  "ui_bounds r =
     (0 \<le> temperature r \<and> temperature r \<le> 1 \<and> 0 \<le> top_p r \<and> top_p r \<le> 1 \<and>
      is_integer (top_k r) \<and> 0 \<le> top_k r \<and>
      is_integer (num_beams r) \<and> 1 \<le> num_beams r \<and>
      is_integer (max_new_tokens r))"

definition top_k_zero_values :: "ui_value list" where
  "top_k_zero_values =
     [Text ''Tell me about alpacas.'', Text [], Number 1, Number 1, Number 0, Number 4,
      Number 128, Flag False]"

definition top_k_zero_request :: request where
  "top_k_zero_request =
     \<lparr> temperature = 1, top_p = 1, top_k = 0, num_beams = 4,
       instruction = ''Tell me about alpacas.'', input = Some [], max_new_tokens = 128,
       stream_output = False \<rparr>"

section \<open>\<open>evaluate\<close> of \<open>gradio_qlora_webserver.py\<close>\<close>

text \<open>
  The keyword arguments of \<open>model.generate\<close> are a dict: a list of keys and values, in
  insertion order. A tensor of token ids is the list of the ids of its one sequence.
\<close>

datatype callback = ChannelBridge | OtherCallback nat

datatype criterion = Stream "callback option" | OtherCriterion nat

record generation_config = sampling +
  do_sample :: bool

datatype kwarg =
  Ids "int list"
| Config generation_config
| Bool bool
| Num rat
| Criteria "criterion list"

type_synonym kwargs = "(string \<times> kwarg) list"

text \<open>\<open>d.setdefault(k, v)\<close> and \<open>d[k] = v\<close>.\<close>

definition setdefault :: "kwargs \<Rightarrow> string \<Rightarrow> kwarg \<Rightarrow> kwargs" where
  "setdefault d k v = (case map_of d k of None \<Rightarrow> d @ [(k, v)] | Some old \<Rightarrow> d)"

fun dict_set :: "kwargs \<Rightarrow> string \<Rightarrow> kwarg \<Rightarrow> kwargs" where
  "dict_set [] k v = [(k, v)]"
| "dict_set ((k', v') # d) k v = (if k' = k then (k, v) # d else (k', v') # dict_set d k v)"

text \<open>
  The model and the tokenizer are collaborators outside the repository. What one call of
  \<open>model.generate\<close> does is a \<open>generation\<close>: the output so far at each decoding
  step, as the stopping criteria are shown it, and the sequences returned or the
  exception raised at the end.
\<close>

record generation =
  steps :: "int list list"
  result :: "py_error + int list list"

record env =
  tokenizer :: "string \<Rightarrow> int list"
  decode :: "int list \<Rightarrow> string"
  eos_token_id :: int
  generate :: "kwargs \<Rightarrow> generation"

text \<open>
  The effects of a request are kept in a log: every call of \<open>model.generate\<close> with the
  lane of execution that made it, and every construction of the streaming adapter.
\<close>

datatype lane = ConsumerLane | WorkerLane

record world =
  lane :: lane
  generate_calls :: "(lane \<times> kwargs) list"
  iteratorize_calls :: "kwargs list"

definition model_generate :: "env \<Rightarrow> kwargs \<Rightarrow> world \<Rightarrow> generation \<times> world" where
  "model_generate e kw w =
     (generate e kw, w\<lparr>generate_calls := generate_calls w @ [(lane w, kw)]\<rparr>)"

text \<open>
  \<open>generate_with_callback\<close>, the function handed to the adapter. \<open>append\<close> needs the
  value under \<open>stopping_criteria\<close> to be a list. The Python function returns nothing;
  the value returned here is what the call of \<open>model.generate\<close> did.
\<close>

definition generate_with_callback ::
  "env \<Rightarrow> callback option \<Rightarrow> kwargs \<Rightarrow> world \<Rightarrow> (py_error + generation) \<times> world" where
  "generate_with_callback e callback kw w =
     (let kw1 = setdefault kw ''stopping_criteria'' (Criteria []) in
      case map_of kw1 ''stopping_criteria'' of
        Some (Criteria cs) \<Rightarrow>
          (let kw2 = dict_set kw1 ''stopping_criteria'' (Criteria (cs @ [Stream callback]));
               (g, w') = model_generate e kw2 w
           in (Inr g, w'))
      | Some other \<Rightarrow> (Inl AttributeError, w)
      | None \<Rightarrow> (Inl KeyError, w))"

text \<open>
  Modelled from the spec: \<open>Iteratorize\<close> and \<open>Stream\<close>, of
  \<open>chatllms/utils/stream_server.py\<close>, are not among the sources. By the specification
  the worker lane invokes the function it is given exactly once, with the callback
  bridge as callback; the consumer then receives one item per generation step, in the
  order of the steps, and after them the end of the sequence: a clean end after normal
  completion, the exception itself after the call raised. The result is the items and
  the end the consumer meets when it keeps pulling.
\<close>

definition Iteratorize ::
  "(callback option \<Rightarrow> kwargs \<Rightarrow> world \<Rightarrow> (py_error + generation) \<times> world) \<Rightarrow>
   kwargs \<Rightarrow> world \<Rightarrow> (int list list \<times> py_error option) \<times> world" where
  "Iteratorize func kw w =
     (let w1 = w\<lparr>lane := WorkerLane, iteratorize_calls := iteratorize_calls w @ [kw]\<rparr>;
          (r, w2) = func (Some ChannelBridge) kw w1;
          w3 = w2\<lparr>lane := lane w\<rparr>
      in case r of
           Inl err \<Rightarrow> (([], Some err), w3)
         | Inr g \<Rightarrow>
             ((steps g, case result g of Inl err \<Rightarrow> Some err | Inr s \<Rightarrow> None), w3))"

text \<open>
  What the generator \<open>evaluate\<close> gives its caller: the chunks yielded, and the exception
  that ended it, if one did.
\<close>

record evaluation =
  chunks :: "string list"
  raised :: "py_error option"

text \<open>
  The loop \<open>for output in generator\<close>, over the items the adapter delivers and their
  end. \<open>output[-1]\<close> raises \<open>IndexError\<close> on an empty output; \<open>break\<close> leaves the
  loop, and the generator then returns.
\<close>

fun stream_loop ::
  "env \<Rightarrow> prompter \<Rightarrow> int list list \<Rightarrow> py_error option \<Rightarrow> string list \<times> py_error option" where
  "stream_loop e p [] ending = ([], ending)"
| "stream_loop e p (output # rest) ending =
     (let decoded_output = decode e output in
      if output = [] then ([], Some IndexError)
      else if last output = eos_token_id e then ([], None)
      else (case get_response p decoded_output of
              Inl err \<Rightarrow> ([], Some err)
            | Inr chunk \<Rightarrow>
                (let (ys, t) = stream_loop e p rest ending in (chunk # ys, t))))"

definition generate_params :: "env \<Rightarrow> request \<Rightarrow> string \<Rightarrow> kwargs" where
  "generate_params e req prompt =
     [(''input_ids'', Ids (tokenizer e prompt)),
      (''generation_config'',
         Config \<lparr> temperature = temperature req, top_p = top_p req, top_k = top_k req,
                  num_beams = num_beams req, do_sample = True \<rparr>),
      (''return_dict_in_generate'', Bool True),
      (''output_scores'', Bool True),
      (''max_new_tokens'', Num (max_new_tokens req))]"

text \<open>
  \<open>evaluate\<close>, with the prompter \<open>Prompter()\<close> of \<open>main\<close>. Both branches pass the
  same five keyword arguments; the tokenizer's attention mask and the device are left
  out.
\<close>

definition evaluate :: "env \<Rightarrow> request \<Rightarrow> world \<Rightarrow> evaluation \<times> world" where
  "evaluate e req w =
     (let p = Prompter None in
      case generate_prompt p (instruction req) (input req) None of
        Inl err \<Rightarrow> (\<lparr>chunks = [], raised = Some err\<rparr>, w)
      | Inr prompt \<Rightarrow>
          if stream_output req then
            (let ((items, ending), w') =
                   Iteratorize (generate_with_callback e) (generate_params e req prompt) w;
                 (ys, t) = stream_loop e p items ending
             in (\<lparr>chunks = ys, raised = t\<rparr>, w'))
          else
            (let (generation_output, w') = model_generate e (generate_params e req prompt) w in
             case result generation_output of
               Inl err \<Rightarrow> (\<lparr>chunks = [], raised = Some err\<rparr>, w')
             | Inr [] \<Rightarrow> (\<lparr>chunks = [], raised = Some IndexError\<rparr>, w')
             | Inr (s # others) \<Rightarrow>
                 (case get_response p (decode e s) of
                    Inl err \<Rightarrow> (\<lparr>chunks = [], raised = Some err\<rparr>, w')
                  | Inr chunk \<Rightarrow> (\<lparr>chunks = [chunk], raised = None\<rparr>, w'))))"

text \<open>
  Vocabulary for the streamed chunks: the steps before the first one that ends with the
  end-of-sequence token, the chunk a step gives, and texts each of which extends the one
  before.
\<close>

definition before_eos :: "env \<Rightarrow> int list list \<Rightarrow> int list list" where
  "before_eos e outputs = takeWhile (\<lambda>output. last output \<noteq> eos_token_id e) outputs"

definition chunk_of :: "env \<Rightarrow> int list \<Rightarrow> string" where
  "chunk_of e output =
     (case get_response (Prompter None) (decode e output) of Inr chunk \<Rightarrow> chunk | Inl err \<Rightarrow> [])"

fun cumulative :: "string list \<Rightarrow> bool" where
  "cumulative [] = True"
| "cumulative [x] = True"
| "cumulative (x # y # r) = (prefix x y \<and> cumulative (y # r))"

text \<open>
  A toy model and tokenizer: token 2 ends the sequence, token 7 is the prompt, tokens 3
  and 4 together spell the separator, every other token is the letter \<open>a\<close>; the model
  adds one token per step.
\<close>

definition toy_decode :: "int list \<Rightarrow> string" where
  "toy_decode ids =
     concat (map (\<lambda>i. if i = 7 then ''Hi'' @ [CHR 10, CHR 10] @ ''### Response:''
                      else if i = 2 then ''</s>''
                      else if i = 3 then ''### Response''
                      else if i = 4 then '':''
                      else ''a'') ids)"

definition toy_env :: env where
  "toy_env = \<lparr>
     tokenizer = (\<lambda>prompt. [7]),
     decode = toy_decode,
     eos_token_id = 2,
     generate = (\<lambda>kw. \<lparr> steps = [[7, 1], [7, 1, 1], [7, 1, 1, 2]],
                         result = Inr [[7, 1, 1, 2]] \<rparr>) \<rparr>"

definition toy_request :: "bool \<Rightarrow> request" where
  "toy_request streaming =
     \<lparr> temperature = 1, top_p = 1, top_k = 50, num_beams = 4,
       instruction = ''Hi'', input = Some [], max_new_tokens = 128,
       stream_output = streaming \<rparr>"

definition new_world :: world where
  "new_world = \<lparr> lane = ConsumerLane, generate_calls = [], iteratorize_calls = [] \<rparr>"

text \<open>
  The prompt \<open>evaluate\<close> builds for a request, and the keyword arguments the worker
  passes to \<open>model.generate\<close> for it: those of \<open>evaluate\<close>, followed by the stopping
  criteria.
\<close>

definition prompt_of :: "request \<Rightarrow> string" where
  "prompt_of req = instruction req @ [CHR 10, CHR 10] @ ''### Response:''"

definition streamed_kwargs :: "env \<Rightarrow> request \<Rightarrow> callback option \<Rightarrow> kwargs" where
  "streamed_kwargs e req callback =
     generate_params e req (prompt_of req) @ [(''stopping_criteria'', Criteria [Stream callback])]"

text \<open>
  Two more environments: a model whose call raises, and a tokenizer whose decoded text
  has no separator.
\<close>

definition raising_env :: env where
  "raising_env =
     toy_env\<lparr>generate := (\<lambda>kw. \<lparr> steps = [], result = Inl (RuntimeError ''out of memory'') \<rparr>)\<rparr>"

definition mute_env :: env where
  "mute_env = toy_env\<lparr>decode := (\<lambda>ids. ''Hi'')\<rparr>"

section \<open>The streaming adapter\<close>

text \<open>
  Modelled from the spec: \<open>Iteratorize\<close> and \<open>Stream\<close>, of
  \<open>chatllms/utils/stream_server.py\<close>, are not among the sources; what follows is the
  specification's adapter. Two lanes share a handoff channel of capacity 1 and a stop
  flag. The worker lane runs the blocking call, which produces the outputs of its
  \<open>script\<close> one generation step at a time and then ends, normally or with an exception
  (\<open>call_end\<close>). After each step the callback bridge puts the step's output into the
  channel, blocking while the channel is full, and then checks the stop flag; if it is
  set, the call halts. When the call is over the worker puts a terminal marker and
  exits. The consumer takes from the channel: it yields a step output, ends cleanly on
  normal completion and re-raises an exception; on early termination it sets the stop
  flag and discards what arrives until a terminal marker.

  The lanes interleave: a state changes by one action of one lane, and an action that
  would block is not enabled (\<open>None\<close>). The fields \<open>published\<close>, \<open>received\<close> and
  \<open>steps_after_stop\<close> only record history: the step outputs put so far, the step
  outputs taken so far, and the generation steps executed while the stop flag was set.
\<close>

datatype item = StepOutput "int list" | NormalCompletion | Exception py_error | StopAcknowledged

datatype worker_state = Generating | Publishing "int list" | Checking | Finishing item | Exited

datatype consumer_state = Pulling | Draining | Completed | Failed py_error | Cancelled

record adapter =
  script :: "int list list"
  call_end :: "py_error option"
  worker :: worker_state
  channel :: "item list"
  stop_flag :: bool
  consumer :: consumer_state
  observed :: "int list list"
  published :: "int list list"
  received :: "int list list"
  steps_after_stop :: nat

definition capacity :: nat where
  "capacity = 1"

definition start :: "int list list \<Rightarrow> py_error option \<Rightarrow> adapter" where
  "start outputs e =
     \<lparr> script = outputs, call_end = e, worker = Generating, channel = [], stop_flag = False,
       consumer = Pulling, observed = [], published = [], received = [],
       steps_after_stop = 0 \<rparr>"

text \<open>\<open>put\<close> on the channel: not enabled while the channel is full.\<close>

definition put :: "item \<Rightarrow> adapter \<Rightarrow> adapter option" where
  "put m a =
     (if length (channel a) < capacity then Some (a\<lparr>channel := channel a @ [m]\<rparr>) else None)"

text \<open>One action of the worker lane.\<close>

definition work :: "adapter \<Rightarrow> adapter option" where
  "work a =
     (case worker a of
        Generating \<Rightarrow>
          (case script a of
             [] \<Rightarrow>
               Some (a\<lparr>worker := Finishing (case call_end a of
                                                None \<Rightarrow> NormalCompletion
                                              | Some err \<Rightarrow> Exception err)\<rparr>)
           | s # rest \<Rightarrow>
               Some (a\<lparr>script := rest, worker := Publishing s,
                        steps_after_stop :=
                          steps_after_stop a + (if stop_flag a then 1 else 0)\<rparr>))
      | Publishing s \<Rightarrow>
          (case put (StepOutput s) a of
             None \<Rightarrow> None
           | Some a' \<Rightarrow> Some (a'\<lparr>worker := Checking, published := published a @ [s]\<rparr>))
      | Checking \<Rightarrow>
          Some (a\<lparr>worker := (if stop_flag a then Finishing StopAcknowledged else Generating)\<rparr>)
      | Finishing m \<Rightarrow>
          (case put m a of None \<Rightarrow> None | Some a' \<Rightarrow> Some (a'\<lparr>worker := Exited\<rparr>))
      | Exited \<Rightarrow> None)"

text \<open>\<open>take\<close> by the consumer: not enabled on an empty channel, nor once it has ended.\<close>

definition take :: "adapter \<Rightarrow> adapter option" where
  "take a =
     (case channel a of
        [] \<Rightarrow> None
      | m # rest \<Rightarrow>
          (case consumer a of
             Pulling \<Rightarrow>
               (case m of
                  StepOutput s \<Rightarrow>
                    Some (a\<lparr>channel := rest, observed := observed a @ [s],
                             received := received a @ [s]\<rparr>)
                | NormalCompletion \<Rightarrow> Some (a\<lparr>channel := rest, consumer := Completed\<rparr>)
                | Exception err \<Rightarrow> Some (a\<lparr>channel := rest, consumer := Failed err\<rparr>)
                | StopAcknowledged \<Rightarrow> Some (a\<lparr>channel := rest, consumer := Cancelled\<rparr>))
           | Draining \<Rightarrow>
               (case m of
                  StepOutput s \<Rightarrow> Some (a\<lparr>channel := rest, received := received a @ [s]\<rparr>)
                | NormalCompletion \<Rightarrow> Some (a\<lparr>channel := rest, consumer := Cancelled\<rparr>)
                | Exception err \<Rightarrow> Some (a\<lparr>channel := rest, consumer := Cancelled\<rparr>)
                | StopAcknowledged \<Rightarrow> Some (a\<lparr>channel := rest, consumer := Cancelled\<rparr>))
           | Completed \<Rightarrow> None
           | Failed err \<Rightarrow> None
           | Cancelled \<Rightarrow> None))"

text \<open>Early termination by the consumer.\<close>

definition cancel :: "adapter \<Rightarrow> adapter option" where
  "cancel a =
     (if consumer a = Pulling then Some (a\<lparr>stop_flag := True, consumer := Draining\<rparr>)
      else None)"

datatype action = Work | Take | Cancel

fun step :: "action \<Rightarrow> adapter \<Rightarrow> adapter option" where
  "step Work a = work a"
| "step Take a = take a"
| "step Cancel a = cancel a"

text \<open>A schedule is a list of actions; it runs as long as each action is enabled.\<close>

fun run :: "action list \<Rightarrow> adapter \<Rightarrow> adapter option" where
  "run [] a = Some a"
| "run (x # xs) a = (case step x a of None \<Rightarrow> None | Some a' \<Rightarrow> run xs a')"

text \<open>
  The step outputs among the items of the channel, the output the bridge is about to
  put, a terminal marker, and a bound on the actions still to come.
\<close>

fun outputs_in :: "item list \<Rightarrow> int list list" where
  "outputs_in [] = []"
| "outputs_in (StepOutput s # ms) = s # outputs_in ms"
| "outputs_in (m # ms) = outputs_in ms"

fun pending :: "worker_state \<Rightarrow> int list list" where
  "pending (Publishing s) = [s]"
| "pending w = []"

fun terminal :: "item \<Rightarrow> bool" where
  "terminal (StepOutput s) = False"
| "terminal m = True"

fun worker_weight :: "worker_state \<Rightarrow> nat" where
  "worker_weight Generating = 3"
| "worker_weight (Publishing s) = 6"
| "worker_weight Checking = 4"
| "worker_weight (Finishing m) = 2"
| "worker_weight Exited = 0"

definition remaining :: "adapter \<Rightarrow> nat" where
  "remaining a =
     4 * length (script a) + worker_weight (worker a) + length (channel a)
     + (if consumer a = Pulling then 1 else 0)"


definition cancelling_schedule :: "action list" where
  "cancelling_schedule =
     [Work, Work, Work, Take, Cancel, Work, Work, Take, Work, Work, Take]"

text \<open>
  What holds in every state the adapter reaches: a marker is put only when what it says
  is the case; the history agrees with the channel and with the outputs of the call; a
  lane that has ended has ended for its reason; and the steps counted after a stop.
\<close>

fun marker_ok :: "adapter \<Rightarrow> item \<Rightarrow> bool" where
  "marker_ok a (StepOutput s) = False"
| "marker_ok a NormalCompletion = (call_end a = None \<and> script a = [])"
| "marker_ok a (Exception err) = (call_end a = Some err \<and> script a = [])"
| "marker_ok a StopAcknowledged = stop_flag a"

fun ended :: "consumer_state \<Rightarrow> bool" where
  "ended Pulling = False"
| "ended Draining = False"
| "ended c = True"

definition inv_history :: "int list list \<Rightarrow> adapter \<Rightarrow> bool" where
  "inv_history outputs a =
     (length (channel a) \<le> 1 \<and>
      published a = received a @ outputs_in (channel a) \<and>
      outputs = published a @ pending (worker a) @ script a \<and>
      prefix (observed a) (received a) \<and>
      (consumer a = Pulling \<longrightarrow> observed a = received a))"

definition inv_markers :: "adapter \<Rightarrow> bool" where
  "inv_markers a =
     ((\<forall>m. worker a = Finishing m \<longrightarrow> marker_ok a m) \<and>
      (\<forall>m \<in> set (channel a). terminal m \<longrightarrow> marker_ok a m \<and> worker a = Exited) \<and>
      (worker a = Exited \<longrightarrow> (\<exists>m \<in> set (channel a). terminal m) \<or> ended (consumer a)) \<and>
      (ended (consumer a) \<longrightarrow> worker a = Exited \<and> channel a = []) \<and>
      (stop_flag a \<longleftrightarrow> consumer a = Draining \<or> consumer a = Cancelled))"

definition inv_consumer :: "int list list \<Rightarrow> adapter \<Rightarrow> bool" where
  "inv_consumer outputs a =
     ((consumer a = Completed \<longrightarrow> call_end a = None \<and> observed a = outputs) \<and>
      (\<forall>err. consumer a = Failed err \<longrightarrow> call_end a = Some err \<and> observed a = outputs))"

definition inv_stop :: "adapter \<Rightarrow> bool" where
  "inv_stop a =
     (steps_after_stop a \<le> 1 \<and>
      (\<not> stop_flag a \<longrightarrow> steps_after_stop a = 0) \<and>
      (steps_after_stop a = 1 \<longrightarrow> worker a \<noteq> Generating))"

definition consistent :: "int list list \<Rightarrow> adapter \<Rightarrow> bool" where
  "consistent outputs a =
     (inv_history outputs a \<and> inv_markers a \<and> inv_consumer outputs a \<and> inv_stop a)"

section \<open>Properties of the prompter\<close>

lemma prefix_straddle:
  "prefix sep (u @ c # rest) \<Longrightarrow> c \<notin> set sep \<Longrightarrow> prefix sep u"
  by (auto simp: prefix_append prefix_Cons)

lemma split_from_skip:
  "\<not> contains sep x \<Longrightarrow> c \<notin> set sep \<Longrightarrow>
   split_from sep cur (x @ c # y) = split_from sep (c # rev x @ cur) y"
proof (induction x arbitrary: cur)
  case Nil
  then show ?case by (auto simp: prefix_Cons)
next
  case (Cons a x)
  have "\<not> prefix sep (a # x @ c # y)"
    using prefix_straddle[of sep "a # x" c y] Cons.prems by auto
  then show ?case using Cons by simp
qed

lemma split_from_none:
  "\<not> contains sep s \<Longrightarrow> split_from sep cur s = [rev cur @ s]"
  by (induction s arbitrary: cur) auto

lemma count_occ_skip:
  "\<not> contains sep x \<Longrightarrow> c \<notin> set sep \<Longrightarrow> count_occ sep (x @ c # y) = count_occ sep y"
proof (induction x)
  case Nil
  then show ?case by (auto simp: prefix_Cons)
next
  case (Cons a x)
  have "\<not> prefix sep (a # x @ c # y)"
    using prefix_straddle[of sep "a # x" c y] Cons.prems by auto
  then show ?case using Cons by simp
qed

lemma count_occ_none: "\<not> contains sep s \<Longrightarrow> count_occ sep s = 0"
  by (induction s) auto

lemma split_from_at_sep:
  "sep \<noteq> [] \<Longrightarrow> split_from sep cur (sep @ r) = rev cur # split_from sep [] r"
  by (cases sep) auto

lemma split_tail:
  assumes x: "\<not> contains ''### Response:'' x" and r: "\<not> contains ''### Response:'' r"
  shows "split_from ''### Response:'' cur (x @ CHR 10 # ''### Response:'' @ r)
         = [rev cur @ x @ [CHR 10], r]"
proof -
  have "split_from ''### Response:'' cur (x @ CHR 10 # (''### Response:'' @ r))
        = split_from ''### Response:'' (CHR 10 # rev x @ cur) (''### Response:'' @ r)"
    using x by (intro split_from_skip) simp_all
  also have "\<dots> = rev (CHR 10 # rev x @ cur) # split_from ''### Response:'' [] r"
    by (intro split_from_at_sep) simp
  finally show ?thesis using r by (simp add: split_from_none)
qed

lemma count_tail:
  assumes x: "\<not> contains ''### Response:'' x" and r: "\<not> contains ''### Response:'' r"
  shows "count_occ ''### Response:'' (x @ CHR 10 # ''### Response:'' @ r) = 1"
proof -
  have "count_occ ''### Response:'' (x @ CHR 10 # (''### Response:'' @ r))
        = count_occ ''### Response:'' (''### Response:'' @ r)"
    using x by (intro count_occ_skip) simp_all
  then show ?thesis using r by (simp add: count_occ_none)
qed

lemma contains_skip:
  "\<not> contains sep x \<Longrightarrow> c \<notin> set sep \<Longrightarrow> contains sep (x @ c # y) = contains sep y"
proof (induction x)
  case Nil
  then show ?case by (auto simp: prefix_Cons)
next
  case (Cons a x)
  have "\<not> prefix sep (a # x @ c # y)"
    using prefix_straddle[of sep "a # x" c y] Cons.prems by auto
  then show ?case using Cons by simp
qed

lemma contains_Nil [simp]: "contains [] x"
  by (cases x) auto

lemma contains_snoc:
  "\<not> contains sep x \<Longrightarrow> c \<notin> set sep \<Longrightarrow> \<not> contains sep (x @ [c])"
  using contains_skip[of sep x c "[]"] by (cases "sep = []") auto

lemma alpaca_head1: "\<not> contains ''### Response:''
   (''Below is an instruction that describes a task, paired with an input that provides further context. ''
             @ ''Write a response that appropriately completes the request.'' @ [CHR 10, CHR 10]
             @ ''### Instruction:'')"
  by simp

lemma alpaca_head2: "\<not> contains ''### Response:''
   (''Below is an instruction that describes a task. ''
             @ ''Write a response that appropriately completes the request.'' @ [CHR 10, CHR 10]
             @ ''### Instruction:'')"
  by simp

lemma prompt_shape:
  assumes i: "\<not> contains ''### Response:'' instr"
    and inp: "\<forall>i. inp = Some i \<longrightarrow> \<not> contains ''### Response:'' i"
  shows "\<exists>pre. \<not> contains ''### Response:'' pre \<and>
           generate_prompt (Prompter tmpl) instr inp (Some response)
             = Inr (pre @ CHR 10 # ''### Response:'' @ response)"
proof (cases "tmpl = Some ''alpaca''")
  case False
  have "\<not> contains ''### Response:'' (instr @ [CHR 10])"
    using i by (intro contains_snoc) simp_all
  moreover have "generate_prompt (Prompter tmpl) instr inp (Some response)
      = Inr ((instr @ [CHR 10]) @ CHR 10 # ''### Response:'' @ response)"
    using False by (simp add: generate_prompt_def Prompter_def PROMPT_DICT_def split: option.splits)
  ultimately show ?thesis by blast
next
  case True
  show ?thesis
  proof (cases inp)
    case None
    let ?h = "''Below is an instruction that describes a task. ''
             @ ''Write a response that appropriately completes the request.'' @ [CHR 10, CHR 10]
             @ ''### Instruction:''"
    let ?pre = "?h @ CHR 10 # (instr @ [CHR 10])"
    have "contains ''### Response:'' ?pre = contains ''### Response:'' (instr @ [CHR 10])"
      by (intro contains_skip alpaca_head2) simp
    moreover have "\<not> contains ''### Response:'' (instr @ [CHR 10])"
      using i by (intro contains_snoc) simp_all
    ultimately have "\<not> contains ''### Response:'' ?pre" by blast
    moreover have "generate_prompt (Prompter tmpl) instr inp (Some response)
      = Inr (?pre @ CHR 10 # ''### Response:'' @ response)"
      using True None by (simp add: generate_prompt_def Prompter_def ALPACA_PROMPT_DICT_def)
    ultimately show ?thesis by blast
  next
    case (Some inp_text)
    let ?h = "''Below is an instruction that describes a task, paired with an input that provides further context. ''
             @ ''Write a response that appropriately completes the request.'' @ [CHR 10, CHR 10]
             @ ''### Instruction:''"
    let ?t3 = "inp_text @ [CHR 10]"
    let ?t2 = "(CHR 10 # ''### Input:'') @ CHR 10 # ?t3"
    let ?t1 = "instr @ CHR 10 # ?t2"
    let ?pre = "?h @ CHR 10 # ?t1"
    have n3: "\<not> contains ''### Response:'' ?t3"
      using inp Some by (intro contains_snoc) simp_all
    have "contains ''### Response:'' ?t2 = contains ''### Response:'' ?t3"
      by (intro contains_skip) simp_all
    moreover have "contains ''### Response:'' ?t1 = contains ''### Response:'' ?t2"
      using i by (intro contains_skip) simp_all
    moreover have "contains ''### Response:'' ?pre = contains ''### Response:'' ?t1"
      by (intro contains_skip alpaca_head1) simp
    ultimately have "\<not> contains ''### Response:'' ?pre" using n3 by blast
    moreover have "generate_prompt (Prompter tmpl) instr inp (Some response)
      = Inr (?pre @ CHR 10 # ''### Response:'' @ response)"
      using True Some by (simp add: generate_prompt_def Prompter_def ALPACA_PROMPT_DICT_def)
    ultimately show ?thesis by blast
  qed
qed

text \<open>
  Claim C8. For every instruction, input and response, none of which contains the
  separator \<open>### Response:\<close>, and for either template, \<open>generate_prompt\<close> returns a
  text in which the separator occurs exactly once, and \<open>get_response\<close> applied to that
  text returns the response stripped of leading and trailing whitespace; in particular
  \<open>get_response\<close> does not raise on it. (The response need not be non-empty.)
\<close>

theorem get_response_generate_prompt:
  assumes "\<not> contains ''### Response:'' instr"
    and "\<forall>i. inp = Some i \<longrightarrow> \<not> contains ''### Response:'' i"
    and "\<not> contains ''### Response:'' response"
  shows "\<exists>text. generate_prompt (Prompter tmpl) instr inp (Some response) = Inr text
           \<and> count_occ ''### Response:'' text = 1
           \<and> get_response (Prompter tmpl) text = Inr (strip response)"
proof -
  obtain pre where pre: "\<not> contains ''### Response:'' pre"
    and shape: "generate_prompt (Prompter tmpl) instr inp (Some response)
                 = Inr (pre @ CHR 10 # ''### Response:'' @ response)"
    using prompt_shape[OF assms(1,2)] by blast
  have "count_occ ''### Response:'' (pre @ CHR 10 # ''### Response:'' @ response) = 1"
    using pre assms(3) by (rule count_tail)
  moreover have "split_from ''### Response:'' [] (pre @ CHR 10 # ''### Response:'' @ response)
                   = [rev [] @ pre @ [CHR 10], response]"
    using pre assms(3) by (rule split_tail)
  then have "get_response (Prompter tmpl) (pre @ CHR 10 # ''### Response:'' @ response)
               = Inr (strip response)"
    by (simp add: get_response_def split_def Prompter_def)
  ultimately show ?thesis using shape by blast
qed

theorem get_response_generate_prompt_witness:
  "get_response (Prompter None) ''Say hi'' = Inl IndexError \<and>
   generate_prompt (Prompter (Some ''alpaca'')) ''Say hi'' (Some ''now'') (Some '' Hi! '')
     = Inr (''Below is an instruction that describes a task, paired with an input that provides further context. ''
             @ ''Write a response that appropriately completes the request.'' @ [CHR 10, CHR 10]
             @ ''### Instruction:'' @ [CHR 10] @ ''Say hi'' @ [CHR 10, CHR 10] @ ''### Input:'' @ [CHR 10]
             @ ''now'' @ [CHR 10, CHR 10] @ ''### Response: Hi! '') \<and>
   (\<exists>text. generate_prompt (Prompter (Some ''alpaca'')) ''Say hi'' (Some ''now'') (Some '' Hi! '') = Inr text
           \<and> count_occ ''### Response:'' text = 1
           \<and> get_response (Prompter (Some ''alpaca'')) text = Inr ''Hi!'')"
proof -
  have s: "strip '' Hi! '' = ''Hi!''"
    by (simp add: strip_def isspace_def)
  have g: "get_response (Prompter None) ''Say hi'' = Inl IndexError"
    by (simp add: get_response_def split_def Prompter_def)
  have p: "generate_prompt (Prompter (Some ''alpaca'')) ''Say hi'' (Some ''now'') (Some '' Hi! '')
     = Inr (''Below is an instruction that describes a task, paired with an input that provides further context. ''
             @ ''Write a response that appropriately completes the request.'' @ [CHR 10, CHR 10]
             @ ''### Instruction:'' @ [CHR 10] @ ''Say hi'' @ [CHR 10, CHR 10] @ ''### Input:'' @ [CHR 10]
             @ ''now'' @ [CHR 10, CHR 10] @ ''### Response: Hi! '')"
    by (simp add: generate_prompt_def Prompter_def ALPACA_PROMPT_DICT_def)
  show ?thesis
    using get_response_generate_prompt[of "''Say hi''" "Some ''now''" "'' Hi! ''" "Some ''alpaca''"] s g p
    by simp
qed

section \<open>Properties of \<open>get_last_checkpoint\<close>\<close>

lemma int_strip_covers: "x \<in> set s \<Longrightarrow> int_space x \<or> x \<in> set (int_strip s)"
proof -
  assume x: "x \<in> set s"
  have s: "set s = set (takeWhile int_space s) \<union> set (dropWhile int_space s)"
    by (metis set_append takeWhile_dropWhile_id)
  show ?thesis
  proof (cases "x \<in> set (takeWhile int_space s)")
    case True
    then show ?thesis by (auto dest: set_takeWhileD)
  next
    case False
    then have d: "x \<in> set (rev (dropWhile int_space s))" using x s by auto
    have "set (rev (dropWhile int_space s)) =
            set (takeWhile int_space (rev (dropWhile int_space s)))
            \<union> set (dropWhile int_space (rev (dropWhile int_space s)))"
      by (metis set_append takeWhile_dropWhile_id)
    then show ?thesis using d by (auto simp: int_strip_def dest: set_takeWhileD)
  qed
qed

lemma digits_ok_chars: "digits_ok r \<Longrightarrow> x \<in> set r \<Longrightarrow> is_digit x \<or> x = CHR ''_''"
  by (induction r rule: digits_ok.induct) (auto split: if_splits)

lemma py_int_chars:
  assumes "py_int t = Inr n" and "x \<in> set t"
  shows "int_space x \<or> is_digit x \<or> x \<in> {CHR ''_'', CHR ''-'', CHR ''+''}"
proof -
  consider "int_space x" | "x \<in> set (int_strip t)" using int_strip_covers assms(2) by blast
  then show ?thesis
  proof cases
    case 1
    then show ?thesis by simp
  next
    case 2
    then obtain c r where cr: "int_strip t = c # r" by (cases "int_strip t") auto
    show ?thesis
      using assms(1) 2 cr digits_ok_chars[of r x] digits_ok_chars[of "c # r" x]
      by (auto simp: py_int_def split: if_splits)
  qed
qed

lemma py_int_no_c: "py_int t = Inr n \<Longrightarrow> CHR ''c'' \<notin> set t"
  using py_int_chars[of t n "CHR ''c''"] by (auto simp: int_space_def is_digit_def)

lemma replace_from_no_c: "CHR ''c'' \<notin> set t \<Longrightarrow> replace_from ''checkpoint-'' [] t = t"
  by (induction t) auto

lemma replace_well_named:
  assumes "well_named e"
  shows "py_int (replace e ''checkpoint-'' []) = Inr (step_of e)"
proof -
  obtain t where e: "e = ''checkpoint-'' @ t"
    using assms by (auto simp: well_named_def startswith_def prefix_def)
  then have d: "drop 11 e = t" by simp
  obtain n where n: "py_int t = Inr n"
    using assms d by (auto simp: well_named_def split: sum.splits)
  have "replace_from ''checkpoint-'' [] (''checkpoint-'' @ t) = t"
    using py_int_no_c[OF n] by (simp add: replace_from_no_c)
  then have "replace e ''checkpoint-'' [] = t"
    unfolding e by (simp add: replace_def)
  then show ?thesis using n d by (simp add: step_of_def)
qed

lemma scan_steps_skip:
  "\<not> (isdir fs (join d e) \<and> startswith e ''checkpoint'') \<Longrightarrow>
   scan_steps fs d acc (e # es) = scan_steps fs d acc es"
  by auto

lemma scan_steps_take:
  "isdir fs (join d e) \<and> startswith e ''checkpoint'' \<Longrightarrow>
   py_int (replace e ''checkpoint-'' []) = Inr n \<Longrightarrow>
   scan_steps fs d acc (e # es) = scan_steps fs d (max acc n) es"
  by auto

lemma scan_steps_Max:
  assumes "\<forall>e \<in> set es. isdir fs (join d e) \<and> startswith e ''checkpoint'' \<longrightarrow> well_named e"
  shows "scan_steps fs d acc es =
           Inr (Max (insert acc (step_of `
                  {e \<in> set es. isdir fs (join d e) \<and> startswith e ''checkpoint''})))"
  using assms
proof (induction es arbitrary: acc)
  case Nil
  show ?case by simp
next
  case (Cons e es)
  define c where "c = (\<lambda>e. isdir fs (join d e) \<and> startswith e ''checkpoint'')"
  define S where "S = step_of ` {x \<in> set es. c x}"
  have fin: "finite S" by (simp add: S_def)
  have ih: "\<And>a. scan_steps fs d a es = Inr (Max (insert a S))"
    using Cons by (simp add: S_def c_def)
  have goal: "scan_steps fs d acc (e # es)
                = Inr (Max (insert acc (step_of ` {x \<in> set (e # es). c x})))"
  proof (cases "c e")
    case False
    have "{x \<in> set (e # es). c x} = {x \<in> set es. c x}" using False by auto
    then have img: "step_of ` {x \<in> set (e # es). c x} = S" by (simp only: S_def)
    have "scan_steps fs d acc (e # es) = scan_steps fs d acc es"
      using False unfolding c_def by (rule scan_steps_skip)
    then show ?thesis by (simp only: img ih)
  next
    case True
    then have "well_named e" using Cons.prems by (simp add: c_def)
    then have p: "py_int (replace e ''checkpoint-'' []) = Inr (step_of e)"
      by (rule replace_well_named)
    have "{x \<in> set (e # es). c x} = insert e {x \<in> set es. c x}" using True by auto
    then have img: "step_of ` {x \<in> set (e # es). c x} = insert (step_of e) S"
      by (simp only: S_def image_insert)
    have m: "Max (insert (max acc (step_of e)) S) = Max (insert acc (insert (step_of e) S))"
      using fin by (cases "S = {}") (auto simp: max.assoc)
    have "scan_steps fs d acc (e # es) = scan_steps fs d (max acc (step_of e)) es"
      using True p unfolding c_def by (rule scan_steps_take)
    then show ?thesis by (simp only: img ih m)
  qed
  then show ?case by (simp only: c_def)
qed

lemma checkpoint_dirs_set:
  "set (checkpoint_dirs fs d) =
     {e \<in> set (listdir fs d). isdir fs (join d e) \<and> startswith e ''checkpoint''}"
  by (auto simp: checkpoint_dirs_def)

text \<open>
  Claim C9, amended. \<open>get_last_checkpoint\<close> returns \<open>(None, False)\<close> when the directory
  does not exist, and \<open>(None, True)\<close> when it exists and holds an entry \<open>completed\<close>.
  For an existing directory without \<open>completed\<close> in which every subdirectory whose name
  starts with \<open>checkpoint\<close> is named \<open>checkpoint-<s>\<close>, with \<open>s\<close> accepted by \<open>int\<close>:
  let \<open>m\<close> be the largest of 0 and the steps of these subdirectories; the result is
  \<open>(None, False)\<close> when \<open>m = 0\<close> (no such subdirectory, or no positive step), and
  otherwise the directory joined with \<open>checkpoint-<m>\<close>, paired with \<open>False\<close>.
\<close>

theorem get_last_checkpoint_result:
  "(\<not> isdir fs d \<longrightarrow> get_last_checkpoint fs d = Inr (None, False)) \<and>
   (isdir fs d \<and> exists_path fs (join d ''completed'') \<longrightarrow>
      get_last_checkpoint fs d = Inr (None, True)) \<and>
   (isdir fs d \<and> \<not> exists_path fs (join d ''completed'') \<and>
    (\<forall>e \<in> set (checkpoint_dirs fs d). well_named e) \<longrightarrow>
      get_last_checkpoint fs d =
        (if Max (insert 0 (step_of ` set (checkpoint_dirs fs d))) = 0 then Inr (None, False)
         else Inr (Some (join d (''checkpoint-'' @
                      str_int (Max (insert 0 (step_of ` set (checkpoint_dirs fs d)))))), False)))"
proof (intro conjI impI)
  assume "\<not> isdir fs d"
  then show "get_last_checkpoint fs d = Inr (None, False)"
    by (simp add: get_last_checkpoint_def)
next
  assume "isdir fs d \<and> exists_path fs (join d ''completed'')"
  then show "get_last_checkpoint fs d = Inr (None, True)"
    by (simp add: get_last_checkpoint_def)
next
  assume a: "isdir fs d \<and> \<not> exists_path fs (join d ''completed'') \<and>
    (\<forall>e \<in> set (checkpoint_dirs fs d). well_named e)"
  then have "\<forall>e \<in> set (listdir fs d).
      isdir fs (join d e) \<and> startswith e ''checkpoint'' \<longrightarrow> well_named e"
    by (simp add: checkpoint_dirs_set)
  then have "scan_steps fs d 0 (listdir fs d) =
      Inr (Max (insert 0 (step_of ` set (checkpoint_dirs fs d))))"
    using scan_steps_Max[of "listdir fs d" fs d 0] by (simp add: checkpoint_dirs_set)
  then show "get_last_checkpoint fs d =
        (if Max (insert 0 (step_of ` set (checkpoint_dirs fs d))) = 0 then Inr (None, False)
         else Inr (Some (join d (''checkpoint-'' @
                      str_int (Max (insert 0 (step_of ` set (checkpoint_dirs fs d)))))), False))"
    using a by (simp add: get_last_checkpoint_def)
qed

lemma py_int_0: "py_int ''0'' = Inr 0"
  by (simp add: py_int_def int_strip_def int_space_def is_digit_def digits_value_def digit_val_def)

lemma py_int_20: "py_int ''20'' = Inr 20"
  by (simp add: py_int_def int_strip_def int_space_def is_digit_def digits_value_def digit_val_def)

lemma py_int_100: "py_int ''100'' = Inr 100"
  by (simp add: py_int_def int_strip_def int_space_def is_digit_def digits_value_def digit_val_def)

lemma py_int_whitespace:
  "py_int [CHR 0x1C, CHR ''5''] = Inl ValueError"
  "py_int ([CHR 0xA0] @ ''-7'' @ [CHR 0x85]) = Inr (- 7)"
  "py_int '' +1_0 '' = Inr 10"
  by (simp_all add: py_int_def int_strip_def int_space_def is_digit_def digits_value_def
      digit_val_def)

lemma py_int_checkpoints: "py_int ''checkpoints'' = Inl ValueError"
  by (simp add: py_int_def int_strip_def int_space_def is_digit_def)

lemma str_int_100: "str_int 100 = ''100''"
  by (simp add: str_int_def digit_char_def)

text \<open>
  The claim as first stated fails on the code. A directory whose only checkpoint is
  \<open>checkpoint-0\<close> has an integer suffix, yet the result is \<open>(None, False)\<close>, not the
  path to \<open>checkpoint-0\<close>: step 0 is the loop's value for "nothing found". And a
  subdirectory \<open>checkpoints\<close>, which is not named \<open>checkpoint-*\<close> but passes the loop's
  test \<open>startswith('checkpoint')\<close>, makes \<open>int\<close> raise \<open>ValueError\<close>.
\<close>

theorem get_last_checkpoint_counterexample:
  "isdir fs_zero ''out'' \<and>
   \<not> exists_path fs_zero (join ''out'' ''completed'') \<and>
   listdir fs_zero ''out'' = [''checkpoint-0''] \<and>
   isdir fs_zero (join ''out'' ''checkpoint-0'') \<and>
   py_int (drop 11 ''checkpoint-0'') = Inr 0 \<and>
   get_last_checkpoint fs_zero ''out'' = Inr (None, False) \<and>
   get_last_checkpoint fs_zero ''out''
     \<noteq> Inr (Some (join ''out'' (''checkpoint-'' @ str_int 0)), False) \<and>
   isdir fs_odd ''out'' \<and>
   \<not> exists_path fs_odd (join ''out'' ''completed'') \<and>
   listdir fs_odd ''out'' = [''checkpoint-20'', ''checkpoints''] \<and>
   isdir fs_odd (join ''out'' ''checkpoint-20'') \<and>
   py_int (drop 11 ''checkpoint-20'') = Inr 20 \<and>
   \<not> startswith ''checkpoints'' ''checkpoint-'' \<and>
   get_last_checkpoint fs_odd ''out'' = Inl ValueError"
proof -
  have j: "join ''out'' ''completed'' = ''out/completed''"
      "join ''out'' ''checkpoint-0'' = ''out/checkpoint-0''"
      "join ''out'' ''checkpoint-20'' = ''out/checkpoint-20''"
      "join ''out'' ''checkpoints'' = ''out/checkpoints''"
    by (simp_all add: join_def startswith_def suffix_def)
  have r: "replace ''checkpoint-0'' ''checkpoint-'' [] = ''0''"
      "replace ''checkpoint-20'' ''checkpoint-'' [] = ''20''"
      "replace ''checkpoints'' ''checkpoint-'' [] = ''checkpoints''"
    by (simp_all add: replace_def)
  have z: "get_last_checkpoint fs_zero ''out'' = Inr (None, False)"
    by (simp add: get_last_checkpoint_def isdir_def exists_path_def fs_zero_def j r py_int_0
        startswith_def)
  have o: "get_last_checkpoint fs_odd ''out'' = Inl ValueError"
    by (simp add: get_last_checkpoint_def isdir_def exists_path_def fs_odd_def j r py_int_20
        py_int_checkpoints startswith_def)
  have a: "isdir fs_zero ''out''" "\<not> exists_path fs_zero (join ''out'' ''completed'')"
      "listdir fs_zero ''out'' = [''checkpoint-0'']" "isdir fs_zero (join ''out'' ''checkpoint-0'')"
    by (simp_all add: isdir_def exists_path_def fs_zero_def j)
  have b: "isdir fs_odd ''out''" "\<not> exists_path fs_odd (join ''out'' ''completed'')"
      "listdir fs_odd ''out'' = [''checkpoint-20'', ''checkpoints'']"
      "isdir fs_odd (join ''out'' ''checkpoint-20'')"
    by (simp_all add: isdir_def exists_path_def fs_odd_def j)
  have c: "py_int (drop 11 ''checkpoint-0'') = Inr 0" "py_int (drop 11 ''checkpoint-20'') = Inr 20"
      "\<not> startswith ''checkpoints'' ''checkpoint-''"
    by (simp_all add: py_int_0 py_int_20 startswith_def)
  show ?thesis
    using z o a b c by simp
qed

theorem get_last_checkpoint_result_witness:
  "isdir fs_two ''out'' \<and>
   \<not> exists_path fs_two (join ''out'' ''completed'') \<and>
   checkpoint_dirs fs_two ''out'' = [''checkpoint-20'', ''checkpoint-100''] \<and>
   well_named ''checkpoint-20'' \<and> well_named ''checkpoint-100'' \<and>
   get_last_checkpoint fs_two ''out'' = Inr (Some ''out/checkpoint-100'', False) \<and>
   \<not> isdir fs_two ''missing'' \<and>
   get_last_checkpoint fs_two ''missing'' = Inr (None, False)"
proof -
  have j: "join ''out'' ''completed'' = ''out/completed''"
      "join ''out'' ''log'' = ''out/log''"
      "join ''out'' ''checkpoint-20'' = ''out/checkpoint-20''"
      "join ''out'' ''checkpoint-100'' = ''out/checkpoint-100''"
    by (simp_all add: join_def startswith_def suffix_def)
  have d: "isdir fs_two ''out''" "\<not> exists_path fs_two (join ''out'' ''completed'')"
      "\<not> isdir fs_two ''missing''"
    by (simp_all add: isdir_def exists_path_def fs_two_def j)
  have c: "checkpoint_dirs fs_two ''out'' = [''checkpoint-20'', ''checkpoint-100'']"
    by (simp add: checkpoint_dirs_def isdir_def fs_two_def j startswith_def)
  have w: "well_named ''checkpoint-20''" "well_named ''checkpoint-100''"
    by (simp_all add: well_named_def startswith_def py_int_20 py_int_100)
  have s: "step_of ''checkpoint-20'' = 20" "step_of ''checkpoint-100'' = 100"
    by (simp_all add: step_of_def py_int_20 py_int_100)
  have p: "join ''out'' (''checkpoint-'' @ str_int 100) = ''out/checkpoint-100''"
    by (simp add: str_int_100 join_def startswith_def suffix_def)
  show ?thesis
    using get_last_checkpoint_result[of fs_two "''out''"]
      get_last_checkpoint_result[of fs_two "''missing''"] d c w s p
    by simp
qed

section \<open>Properties of \<open>find_all_linear_names\<close>\<close>

lemma named_modules_from_Cons:
  "\<exists>rest. named_modules_from pre model = (pre, model) # rest"
  by (cases model) simp

lemma split_dot_ok: "\<exists>names. split name ''.'' = Inr names"
  by (simp add: split_def)

lemma collect_names_bound:
  "\<exists>names. collect_names (Some k) acc ms = Inr names"
proof (induction ms arbitrary: acc)
  case Nil
  show ?case by simp
next
  case (Cons m ms)
  obtain name modl where m: "m = (name, modl)" by (cases m)
  obtain names where names: "split name ''.'' = Inr names"
    using split_dot_ok by blast
  show ?case
    using Cons.IH m names by simp
qed

lemma collect_names_unbound:
  "ms \<noteq> [] \<Longrightarrow> collect_names None acc ms = Inl UnboundLocalError"
  by (cases ms) auto

text \<open>
  Claim C10. For every model: when \<open>bits\<close> is neither 4 nor 8,
  \<open>find_all_linear_names\<close> returns no list but fails with \<open>UnboundLocalError\<close> at the
  first \<open>isinstance\<close> check (\<open>cls\<close> was never assigned, and \<open>named_modules\<close> always
  yields the model itself); when \<open>bits\<close> is 4 or 8 it returns a list, and that list does
  not contain \<open>lm_head\<close>.
\<close>

theorem find_all_linear_names_bits:
  "(bits \<noteq> 4 \<and> bits \<noteq> 8 \<longrightarrow> find_all_linear_names bits model = Inl UnboundLocalError) \<and>
   (bits = 4 \<or> bits = 8 \<longrightarrow>
      (\<exists>names. find_all_linear_names bits model = Inr names \<and> ''lm_head'' \<notin> set names))"
proof (intro conjI impI)
  assume b: "bits \<noteq> 4 \<and> bits \<noteq> 8"
  have "named_modules model \<noteq> []"
    using named_modules_from_Cons[of "[]" model] by (auto simp: named_modules_def)
  then have "collect_names None [] (named_modules model) = Inl UnboundLocalError"
    by (rule collect_names_unbound)
  then show "find_all_linear_names bits model = Inl UnboundLocalError"
    using b by (simp add: find_all_linear_names_def choose_cls_def)
next
  assume b: "bits = 4 \<or> bits = 8"
  then obtain k where k: "choose_cls bits = Some k"
    by (auto simp: choose_cls_def)
  obtain names where "collect_names (Some k) [] (named_modules model) = Inr names"
    using collect_names_bound by blast
  then show "\<exists>names. find_all_linear_names bits model = Inr names \<and> ''lm_head'' \<notin> set names"
    using k by (simp add: find_all_linear_names_def)
qed

theorem find_all_linear_names_bits_witness:
  "find_all_linear_names 16 example_model = Inl UnboundLocalError \<and>
   find_all_linear_names 4 example_model = Inr [''v_proj'', ''q_proj''] \<and>
   (\<exists>names. find_all_linear_names 4 example_model = Inr names \<and> ''lm_head'' \<notin> set names)"
proof -
  have a: "find_all_linear_names 4 example_model = Inr [''v_proj'', ''q_proj'']"
    by (simp add: find_all_linear_names_def choose_cls_def named_modules_def example_model_def
        split_def)
  show ?thesis
    using find_all_linear_names_bits[of 16 example_model]
      find_all_linear_names_bits[of 4 example_model] a
    by simp
qed


section \<open>Properties of the input components\<close>

lemma is_integer_Ints: "is_integer q \<longleftrightarrow> q \<in> \<int>"
  by (auto simp: is_integer_def Ints_def)

lemma is_integer_diff:
  assumes "is_integer (v - a)" and "is_integer a"
  shows "is_integer v"
proof -
  have "(v - a) + a \<in> \<int>" using assms unfolding is_integer_Ints by (rule Ints_add)
  then show ?thesis by (simp add: is_integer_Ints)
qed

lemma is_integer_grid:
  assumes "is_integer ((v - a) / d)" and "is_integer a" and "is_integer d" and "d \<noteq> 0"
  shows "is_integer v"
proof -
  have "((v - a) / d) * d \<in> \<int>"
    using assms(1,3) unfolding is_integer_Ints by (rule Ints_mult)
  then have "is_integer (v - a)" using assms(4) by (simp add: is_integer_Ints)
  then show ?thesis using assms(2) by (rule is_integer_diff)
qed

lemma is_integer_numeral [simp]: "is_integer (numeral n)" "is_integer 0" "is_integer 1"
  by (simp_all add: is_integer_Ints)

lemma admits_TextboxE:
  "admits (Textbox l) v \<Longrightarrow> \<exists>s. v = Text s"
  by (cases v) auto

lemma admits_CheckboxE:
  "admits (Checkbox l) v \<Longrightarrow> \<exists>b. v = Flag b"
  by (cases v) auto

lemma admits_SliderE:
  "admits (Slider lo hi st v0 l) v \<Longrightarrow>
   \<exists>x. v = Number x \<and> (x = v0 \<or> (lo \<le> x \<and> x \<le> hi \<and>
        (case st of None \<Rightarrow> True | Some d \<Rightarrow> is_integer ((x - lo) / d))))"
  by (cases v) auto

text \<open>
  Claim C4, amended. Every list of values the input components of \<open>main\<close> let through
  is a call of \<open>evaluate\<close> with temperature in [0, 1], top-p in [0, 1], top-k an
  integer at least 0, a beam count that is an integer at least 1, and an integer
  max-new-tokens.
\<close>

theorem web_requests_within_ui_bounds:
  assumes "list_all2 admits inputs vs"
  shows "\<exists>r. request_of vs = Some r \<and> ui_bounds r"
proof -
  obtain v1 v2 v3 v4 v5 v6 v7 v8 where vs: "vs = [v1, v2, v3, v4, v5, v6, v7, v8]"
    and a: "admits (Textbox ''Instruction'') v1" "admits (Textbox ''Input'') v2"
      "admits (Slider 0 1 None 1 ''Temperature'') v3"
      "admits (Slider 0 1 None 1 ''Top p'') v4"
      "admits (Slider 0 100 (Some 1) 50 ''Top k'') v5"
      "admits (Slider 1 4 (Some 1) 4 ''Beams'') v6"
      "admits (Slider 16 1024 (Some 32) 128 ''Max new tokens'') v7"
      "admits (Checkbox ''Stream output'') v8"
    using assms by (auto simp: inputs_def list_all2_Cons1)
  obtain i where v1: "v1 = Text i" using a(1) admits_TextboxE by blast
  obtain inp where v2: "v2 = Text inp" using a(2) admits_TextboxE by blast
  obtain t where v3: "v3 = Number t" and t: "0 \<le> t" "t \<le> 1"
    using admits_SliderE[OF a(3)] by auto
  obtain p where v4: "v4 = Number p" and p: "0 \<le> p" "p \<le> 1"
    using admits_SliderE[OF a(4)] by auto
  obtain k where v5: "v5 = Number k" and k: "0 \<le> k" "is_integer k"
    using admits_SliderE[OF a(5)] by auto
  obtain b where v6: "v6 = Number b" and b: "1 \<le> b" "is_integer b"
    using admits_SliderE[OF a(6)] is_integer_diff[of _ 1] by auto
  obtain m where v7: "v7 = Number m"
    and m': "m = 128 \<or> is_integer ((m - 16) / 32)"
    using admits_SliderE[OF a(7)] by auto
  have m: "is_integer m"
    using m' is_integer_grid[of m 16 32] by auto
  obtain s where v8: "v8 = Flag s" using a(8) admits_CheckboxE by blast
  show ?thesis
    using t p k b m by (simp add: vs v1 v2 v3 v4 v5 v6 v7 v8 ui_bounds_def)
qed

theorem web_requests_within_ui_bounds_witness:
  "list_all2 admits inputs top_k_zero_values \<and>
   request_of top_k_zero_values = Some top_k_zero_request \<and>
   ui_bounds top_k_zero_request"
proof -
  have a: "list_all2 admits inputs top_k_zero_values"
    by (simp add: inputs_def top_k_zero_values_def)
  have r: "request_of top_k_zero_values = Some top_k_zero_request"
    by (simp add: top_k_zero_values_def top_k_zero_request_def)
  show ?thesis
    using web_requests_within_ui_bounds[OF a] a r by simp
qed

text \<open>
  The bound "top-k at least 1" of the claim as first stated fails: the slider for top-k
  has minimum 0, so a request with top-k 0 passes the components.
\<close>

theorem web_requests_counterexample:
  "list_all2 admits inputs top_k_zero_values \<and>
   request_of top_k_zero_values = Some top_k_zero_request \<and>
   top_k top_k_zero_request = 0 \<and>
   \<not> spec_bounds top_k_zero_request"
  by (simp add: inputs_def top_k_zero_values_def top_k_zero_request_def spec_bounds_def)


section \<open>Properties of the streaming loop\<close>

lemma prefix_sep_append: "prefix sep s \<Longrightarrow> prefix sep (s @ t)"
  by (simp add: prefix_def) (metis append.assoc)

lemma count_occ_zero_iff: "sep \<noteq> [] \<Longrightarrow> count_occ sep s = 0 \<longleftrightarrow> \<not> contains sep s"
  by (induction s) auto

lemma count_occ_append_mono: "sep \<noteq> [] \<Longrightarrow> count_occ sep a \<le> count_occ sep (a @ t)"
proof (induction a)
  case Nil
  then show ?case by simp
next
  case (Cons c a)
  then show ?case
    using prefix_sep_append[of sep "c # a" t] by auto
qed

lemma count_occ_drop: "count_occ sep (drop k s) \<le> count_occ sep s"
proof (induction s arbitrary: k)
  case Nil
  show ?case by simp
next
  case (Cons c s)
  show ?case
  proof (cases k)
    case 0
    then show ?thesis by simp
  next
    case (Suc j)
    have "count_occ sep (drop j s) \<le> count_occ sep s" by (rule Cons.IH)
    then show ?thesis using Suc by simp
  qed
qed

lemma split_from_nonempty: "split_from sep cur s \<noteq> []"
  by (induction sep cur s rule: split_from.induct) auto

lemma split_from_contains:
  "sep \<noteq> [] \<Longrightarrow> contains sep s \<Longrightarrow> 2 \<le> length (split_from sep cur s)"
proof (induction s arbitrary: cur)
  case Nil
  then show ?case by simp
next
  case (Cons c s)
  show ?case
  proof (cases "prefix sep (c # s)")
    case True
    have "1 \<le> length (split_from sep [] (drop (length sep) (c # s)))"
      using split_from_nonempty[of sep "[]" "drop (length sep) (c # s)"]
      by (cases "split_from sep [] (drop (length sep) (c # s))") auto
    then show ?thesis using True Cons.prems by simp
  next
    case False
    then show ?thesis using Cons by simp
  qed
qed

lemma split_from_pair:
  assumes "sep \<noteq> []" and "count_occ sep a = 1" and "count_occ sep (a @ t) = 1"
  shows "\<exists>pre r. split_from sep cur a = [pre, r] \<and> split_from sep cur (a @ t) = [pre, r @ t]"
  using assms(2,3)
proof (induction a arbitrary: cur)
  case Nil
  then show ?case using assms(1) by simp
next
  case (Cons c a)
  show ?case
  proof (cases "prefix sep (c # a)")
    case True
    then have pt: "prefix sep (c # a @ t)"
      using prefix_sep_append[of sep "c # a" t] by simp
    have za: "count_occ sep a = 0" using True Cons.prems(1) by simp
    have zt: "count_occ sep (a @ t) = 0" using pt Cons.prems(2) by simp
    obtain n where n: "length sep = Suc n" using assms(1) by (cases sep) auto
    have len: "n \<le> length a" using prefix_length_le[OF True] n by simp
    have d: "drop (length sep) (c # a @ t) = drop n a @ t"
      using n len by simp
    have "count_occ sep (drop n a) = 0"
      using count_occ_drop[of sep n a] za by simp
    then have r1: "split_from sep [] (drop n a) = [drop n a]"
      using assms(1) by (simp add: count_occ_zero_iff split_from_none)
    have "count_occ sep (drop n (a @ t)) = 0"
      using count_occ_drop[of sep n "a @ t"] zt by simp
    then have "count_occ sep (drop n a @ t) = 0" using len by simp
    then have r2: "split_from sep [] (drop n a @ t) = [drop n a @ t]"
      using assms(1) by (simp add: count_occ_zero_iff split_from_none)
    have s1: "split_from sep cur (c # a) = [rev cur, drop n a]"
      using True assms(1) n r1 by simp
    have "split_from sep cur (c # a @ t) = rev cur # split_from sep [] (drop (length sep) (c # a @ t))"
      using pt assms(1) by simp
    then have s2: "split_from sep cur ((c # a) @ t) = [rev cur, drop n a @ t]"
      using d r2 by simp
    show ?thesis using s1 s2 by blast
  next
    case False
    then have ca: "count_occ sep a = 1" using Cons.prems(1) by simp
    have np: "\<not> prefix sep (c # a @ t)"
    proof
      assume p: "prefix sep (c # a @ t)"
      then have "count_occ sep (a @ t) = 0" using Cons.prems(2) by simp
      moreover have "count_occ sep a \<le> count_occ sep (a @ t)"
        using assms(1) by (rule count_occ_append_mono)
      ultimately show False using ca by simp
    qed
    then have cat: "count_occ sep (a @ t) = 1" using Cons.prems(2) by simp
    obtain pre r where "split_from sep (c # cur) a = [pre, r]"
      and "split_from sep (c # cur) (a @ t) = [pre, r @ t]"
      using Cons.IH[OF ca cat, of "c # cur"] by blast
    then show ?thesis using False np by simp
  qed
qed

lemma dropWhile_suffix_length:
  "length (dropWhile P v) \<le> length (dropWhile P (u @ v))"
proof (cases "\<forall>x \<in> set u. P x")
  case True
  then show ?thesis by simp
next
  case False
  have "length (dropWhile P v) \<le> length v" by (rule length_dropWhile_le)
  then show ?thesis using False by (simp add: dropWhile_append)
qed

lemma strip_append_length: "length (strip x) \<le> length (strip (x @ t))"
proof (cases "\<forall>c \<in> set x. isspace c")
  case True
  then have e: "dropWhile isspace x = []" by simp
  have "strip x = []" by (simp only: strip_def e dropWhile.simps rev.simps)
  then show ?thesis by simp
next
  case False
  then obtain c where "c \<in> set x" "\<not> isspace c" by blast
  then have d: "dropWhile isspace (x @ t) = dropWhile isspace x @ t"
    by (rule dropWhile_append1)
  have "length (dropWhile isspace (rev (dropWhile isspace x)))
          \<le> length (dropWhile isspace (rev t @ rev (dropWhile isspace x)))"
    by (rule dropWhile_suffix_length)
  then show ?thesis by (simp add: strip_def d)
qed

lemma get_response_cumulative:
  assumes "count_occ ''### Response:'' a = 1" and "count_occ ''### Response:'' b = 1"
    and "prefix a b"
  shows "\<exists>ca cb. get_response (Prompter None) a = Inr ca \<and> get_response (Prompter None) b = Inr cb
           \<and> length ca \<le> length cb"
proof -
  obtain t where b: "b = a @ t" using assms(3) by (auto simp: prefix_def)
  have ne: "''### Response:'' \<noteq> []" by simp
  obtain pre r where s: "split_from ''### Response:'' [] a = [pre, r]"
    "split_from ''### Response:'' [] (a @ t) = [pre, r @ t]"
    using split_from_pair[OF ne assms(1), of t "[]"] assms(2) b by blast
  have "get_response (Prompter None) a = Inr (strip r)"
    using s(1) by (simp add: get_response_def split_def Prompter_def)
  moreover have "get_response (Prompter None) b = Inr (strip (r @ t))"
    using s(2) b by (simp add: get_response_def split_def Prompter_def)
  ultimately show ?thesis using strip_append_length by blast
qed

lemma get_response_contains:
  assumes "contains ''### Response:'' s"
  shows "\<exists>c. get_response (Prompter None) s = Inr c"
proof -
  have "2 \<le> length (split_from ''### Response:'' [] s)"
    using assms by (intro split_from_contains) simp_all
  then show ?thesis by (simp add: get_response_def split_def Prompter_def)
qed

lemma stream_loop_before_eos:
  assumes "\<forall>output \<in> set outputs. output \<noteq> [] \<and> contains ''### Response:'' (decode e output)"
  shows "stream_loop e (Prompter None) outputs ending =
           (map (chunk_of e) (before_eos e outputs),
            if before_eos e outputs = outputs then ending else None)"
  using assms
proof (induction outputs)
  case Nil
  show ?case by (simp add: before_eos_def)
next
  case (Cons out rest)
  have ne: "out \<noteq> []" and c: "contains ''### Response:'' (decode e out)"
    using Cons.prems by simp_all
  obtain chunk where g: "get_response (Prompter None) (decode e out) = Inr chunk"
    using get_response_contains[OF c] by blast
  have ih: "stream_loop e (Prompter None) rest ending =
           (map (chunk_of e) (before_eos e rest),
            if before_eos e rest = rest then ending else None)"
    using Cons by simp
  show ?case
  proof (cases "last out = eos_token_id e")
    case True
    then show ?thesis using ne by (simp add: before_eos_def)
  next
    case False
    have b: "before_eos e (out # rest) = out # before_eos e rest"
      using False by (simp add: before_eos_def)
    have "stream_loop e (Prompter None) (out # rest) ending =
            (chunk # map (chunk_of e) (before_eos e rest),
             if before_eos e rest = rest then ending else None)"
      using ne False g ih by simp
    then show ?thesis using g by (simp add: b chunk_of_def)
  qed
qed

lemma chunk_lengths_sorted:
  assumes "\<forall>output \<in> set os. count_occ ''### Response:'' (decode e output) = 1"
    and "cumulative (map (decode e) os)"
  shows "sorted (map length (map (chunk_of e) os))"
  using assms
proof (induction os rule: induct_list012)
  case 1
  show ?case by simp
next
  case (2 x)
  show ?case by simp
next
  case (3 x y zs)
  have p: "prefix (decode e x) (decode e y)" and c: "cumulative (map (decode e) (y # zs))"
    using "3.prems"(2) by simp_all
  have "length (chunk_of e x) \<le> length (chunk_of e y)"
    using get_response_cumulative[of "decode e x" "decode e y"] "3.prems"(1) p
    by (auto simp: chunk_of_def)
  moreover have "sorted (map length (map (chunk_of e) (y # zs)))"
    using "3.IH"(2) "3.prems"(1) c by simp
  ultimately show ?case by force
qed

text \<open>
  Claim C1, amended. For every streamed generation whose step outputs are non-empty and
  decode to texts that contain the separator, the consumer loop of \<open>evaluate\<close> yields
  one chunk for each step before the first step whose output ends with the
  end-of-sequence token (for each of the N steps when there is none), in the order of the
  steps, each chunk being \<open>get_response\<close> of the step's decoded text; the loop then ends
  as the generator does, or cleanly at the end-of-sequence step. When moreover each of
  these decoded texts extends the one before and contains the separator exactly once,
  each chunk is at least as long as the chunk before it.
\<close>

theorem stream_loop_chunks:
  assumes "\<forall>output \<in> set outputs. output \<noteq> [] \<and> contains ''### Response:'' (decode e output)"
  shows "fst (stream_loop e (Prompter None) outputs ending) = map (chunk_of e) (before_eos e outputs) \<and>
         snd (stream_loop e (Prompter None) outputs ending) =
           (if before_eos e outputs = outputs then ending else None) \<and>
         ((\<forall>output \<in> set (before_eos e outputs). count_occ ''### Response:'' (decode e output) = 1) \<and>
          cumulative (map (decode e) (before_eos e outputs)) \<longrightarrow>
            sorted (map length (fst (stream_loop e (Prompter None) outputs ending))))"
proof -
  have s: "stream_loop e (Prompter None) outputs ending =
           (map (chunk_of e) (before_eos e outputs),
            if before_eos e outputs = outputs then ending else None)"
    using assms by (rule stream_loop_before_eos)
  show ?thesis
    unfolding s using chunk_lengths_sorted[of "before_eos e outputs" e] by simp
qed

lemma toy_decode_simps:
  "decode toy_env [7, 1] = ''Hi'' @ [CHR 10, CHR 10] @ ''### Response:a''"
  "decode toy_env [7, 1, 1] = ''Hi'' @ [CHR 10, CHR 10] @ ''### Response:aa''"
  "decode toy_env [7, 1, 1, 2] = ''Hi'' @ [CHR 10, CHR 10] @ ''### Response:aa</s>''"
  "decode toy_env [7, 1, 3] = ''Hi'' @ [CHR 10, CHR 10] @ ''### Response:a### Response''"
  "decode toy_env [7, 1, 3, 4] = ''Hi'' @ [CHR 10, CHR 10] @ ''### Response:a### Response:''"
  by (simp_all add: toy_env_def toy_decode_def)

lemma toy_eos: "eos_token_id toy_env = 2"
  by (simp add: toy_env_def)

lemma toy_responses:
  "get_response (Prompter None) (decode toy_env [7, 1]) = Inr ''a''"
  "get_response (Prompter None) (decode toy_env [7, 1, 1]) = Inr ''aa''"
  "get_response (Prompter None) (decode toy_env [7, 1, 3]) = Inr ''a### Response''"
  "get_response (Prompter None) (decode toy_env [7, 1, 3, 4]) = Inr ''a''"
  by (simp_all add: toy_decode_simps get_response_def Prompter_def split_def strip_def isspace_def)

text \<open>
  The claim as first stated fails on the code. Of three steps the last of which ends with
  the end-of-sequence token, the loop yields two chunks, not three: it breaks at that
  step. And when the generated text itself spells the separator, \<open>get_response\<close> cuts
  the chunk there, so a chunk can be shorter than the one before.
\<close>

theorem stream_loop_counterexample:
  "length [[7, 1], [7, 1, 1], [7, 1, 1, 2 :: int]] = 3 \<and>
   fst (stream_loop toy_env (Prompter None) [[7, 1], [7, 1, 1], [7, 1, 1, 2]] None) = [''a'', ''aa''] \<and>
   length (fst (stream_loop toy_env (Prompter None) [[7, 1], [7, 1, 1], [7, 1, 1, 2]] None)) \<noteq> 3 \<and>
   fst (stream_loop toy_env (Prompter None) [[7, 1, 3], [7, 1, 3, 4]] None) = [''a### Response'', ''a''] \<and>
   \<not> sorted (map length (fst (stream_loop toy_env (Prompter None) [[7, 1, 3], [7, 1, 3, 4]] None)))"
proof -
  have a: "fst (stream_loop toy_env (Prompter None) [[7, 1], [7, 1, 1], [7, 1, 1, 2]] None) = [''a'', ''aa'']"
    by (simp add: toy_responses toy_eos)
  have b: "fst (stream_loop toy_env (Prompter None) [[7, 1, 3], [7, 1, 3, 4]] None) = [''a### Response'', ''a'']"
    by (simp add: toy_responses toy_eos)
  show ?thesis unfolding a b by simp
qed

theorem stream_loop_chunks_witness:
  "fst (stream_loop toy_env (Prompter None) [[7, 1], [7, 1, 1], [7, 1, 1, 2]] None)
     = [chunk_of toy_env [7, 1], chunk_of toy_env [7, 1, 1]] \<and>
   chunk_of toy_env [7, 1] = ''a'' \<and> chunk_of toy_env [7, 1, 1] = ''aa'' \<and>
   snd (stream_loop toy_env (Prompter None) [[7, 1], [7, 1, 1], [7, 1, 1, 2]] None) = None \<and>
   sorted (map length (fst (stream_loop toy_env (Prompter None) [[7, 1], [7, 1, 1], [7, 1, 1, 2]] None)))"
proof -
  have h: "\<forall>output \<in> set [[7, 1], [7, 1, 1], [7, 1, 1, 2]].
             output \<noteq> [] \<and> contains ''### Response:'' (decode toy_env output)"
    by (simp add: toy_decode_simps)
  have b: "before_eos toy_env [[7, 1], [7, 1, 1], [7, 1, 1, 2]] = [[7, 1], [7, 1, 1]]"
    by (simp add: before_eos_def toy_eos)
  have c: "\<forall>output \<in> set [[7, 1], [7, 1, 1 :: int]].
             count_occ ''### Response:'' (decode toy_env output) = 1"
    by (simp add: toy_decode_simps)
  have m: "cumulative (map (decode toy_env) [[7, 1], [7, 1, 1]])"
    by (simp add: toy_decode_simps)
  have k: "chunk_of toy_env [7, 1] = ''a''" "chunk_of toy_env [7, 1, 1] = ''aa''"
    by (simp_all add: chunk_of_def toy_responses)
  show ?thesis
    using stream_loop_chunks[OF h, of None] b c m k by simp
qed

section \<open>Properties of \<open>evaluate\<close>\<close>

lemma evaluate_prompt:
  "generate_prompt (Prompter None) (instruction req) (input req) None = Inr (prompt_of req)"
  by (simp add: generate_prompt_def Prompter_def PROMPT_DICT_def prompt_of_def split: option.splits)

lemma generate_params_no_criteria:
  "map_of (generate_params e req prompt) ''stopping_criteria'' = None"
  by (simp add: generate_params_def)

lemma dict_set_fresh: "map_of d k = None \<Longrightarrow> dict_set (d @ [(k, v)]) k v' = d @ [(k, v')]"
  by (induction d) (auto split: if_splits)

lemma generate_with_callback_params:
  "generate_with_callback e callback (generate_params e req prompt) w =
     (Inr (generate e (generate_params e req prompt
                        @ [(''stopping_criteria'', Criteria [Stream callback])])),
      w\<lparr>generate_calls := generate_calls w @
          [(lane w, generate_params e req prompt
                     @ [(''stopping_criteria'', Criteria [Stream callback])])]\<rparr>)"
proof -
  let ?kw = "generate_params e req prompt"
  have n: "map_of ?kw ''stopping_criteria'' = None" by (rule generate_params_no_criteria)
  have s: "setdefault ?kw ''stopping_criteria'' (Criteria []) = ?kw @ [(''stopping_criteria'', Criteria [])]"
    using n by (simp add: setdefault_def)
  have m: "map_of (?kw @ [(''stopping_criteria'', Criteria [])]) ''stopping_criteria'' = Some (Criteria [])"
    using n by (simp add: map_add_def)
  have d: "dict_set (?kw @ [(''stopping_criteria'', Criteria [])]) ''stopping_criteria''
             (Criteria [Stream callback])
           = ?kw @ [(''stopping_criteria'', Criteria [Stream callback])]"
    using n by (rule dict_set_fresh)
  show ?thesis
    unfolding generate_with_callback_def s Let_def m
    by (simp add: d model_generate_def)
qed

text \<open>
  Claim C3. For every request, \<open>generate_with_callback\<close>, called with a callback on
  the keyword arguments \<open>evaluate\<close> builds, calls \<open>model.generate\<close> exactly once, on
  those arguments followed by a \<open>stopping_criteria\<close> list whose one entry is the
  \<open>Stream\<close> of that callback; and a streamed request makes exactly one call of
  \<open>model.generate\<close>, in the worker lane, with the callback bridge in that entry.
\<close>

theorem generate_with_callback_once:
  "generate_with_callback e callback (generate_params e req (prompt_of req)) w =
     (Inr (generate e (streamed_kwargs e req callback)),
      w\<lparr>generate_calls := generate_calls w @ [(lane w, streamed_kwargs e req callback)]\<rparr>) \<and>
   map_of (streamed_kwargs e req callback) ''stopping_criteria'' = Some (Criteria [Stream callback]) \<and>
   (stream_output req \<longrightarrow>
      generate_calls (snd (evaluate e req w)) =
        generate_calls w @ [(WorkerLane, streamed_kwargs e req (Some ChannelBridge))])"
proof (intro conjI impI)
  show "generate_with_callback e callback (generate_params e req (prompt_of req)) w =
     (Inr (generate e (streamed_kwargs e req callback)),
      w\<lparr>generate_calls := generate_calls w @ [(lane w, streamed_kwargs e req callback)]\<rparr>)"
    unfolding streamed_kwargs_def by (rule generate_with_callback_params)
next
  show "map_of (streamed_kwargs e req callback) ''stopping_criteria'' = Some (Criteria [Stream callback])"
    by (simp add: streamed_kwargs_def generate_params_def)
next
  assume s: "stream_output req"
  show "generate_calls (snd (evaluate e req w)) =
        generate_calls w @ [(WorkerLane, streamed_kwargs e req (Some ChannelBridge))]"
    using s
    by (simp add: evaluate_def evaluate_prompt Iteratorize_def generate_with_callback_params
        streamed_kwargs_def Let_def split: prod.splits sum.splits)
qed

theorem generate_with_callback_once_witness:
  "stream_output (toy_request True) \<and>
   generate_calls (snd (evaluate toy_env (toy_request True) new_world)) =
     [(WorkerLane,
       [(''input_ids'', Ids [7]),
        (''generation_config'',
           Config \<lparr> temperature = 1, top_p = 1, top_k = 50, num_beams = 4, do_sample = True \<rparr>),
        (''return_dict_in_generate'', Bool True),
        (''output_scores'', Bool True),
        (''max_new_tokens'', Num 128),
        (''stopping_criteria'', Criteria [Stream (Some ChannelBridge)])])]"
proof -
  have s: "stream_output (toy_request True)" by (simp add: toy_request_def)
  have k: "streamed_kwargs toy_env (toy_request True) (Some ChannelBridge) =
       [(''input_ids'', Ids [7]),
        (''generation_config'',
           Config \<lparr> temperature = 1, top_p = 1, top_k = 50, num_beams = 4, do_sample = True \<rparr>),
        (''return_dict_in_generate'', Bool True),
        (''output_scores'', Bool True),
        (''max_new_tokens'', Num 128),
        (''stopping_criteria'', Criteria [Stream (Some ChannelBridge)])]"
    by (simp add: streamed_kwargs_def generate_params_def toy_env_def toy_request_def)
  have g: "generate_calls new_world = []" by (simp add: new_world_def)
  show ?thesis
    using generate_with_callback_once[of toy_env "Some ChannelBridge" "toy_request True" new_world]
      s k g by simp
qed

lemma evaluate_sync:
  assumes "\<not> stream_output req"
    and "\<And>kw. result (generate e kw) = Inr (s # others)"
    and "get_response (Prompter None) (decode e s) = Inr chunk"
  shows "fst (evaluate e req w) = \<lparr>chunks = [chunk], raised = None\<rparr>"
  using assms
  by (simp add: evaluate_def evaluate_prompt model_generate_def Let_def)

text \<open>
  Claim C2, amended. For every request, \<open>evaluate\<close> constructs the streaming adapter
  if and only if \<open>stream_output\<close> is true (once, on the keyword arguments of the
  request). When \<open>stream_output\<close> is false it makes exactly one call of
  \<open>model.generate\<close>, in its own lane and without stopping criteria, and yields a single
  response unless an exception ends it first, in which case it yields none; in
  particular it yields exactly one response whenever the call returns a sequence whose
  decoded text contains the separator.
\<close>

theorem adapter_iff_stream_output:
  "iteratorize_calls (snd (evaluate e req w)) =
     iteratorize_calls w @
       (if stream_output req then [generate_params e req (prompt_of req)] else []) \<and>
   (\<not> stream_output req \<longrightarrow>
      generate_calls (snd (evaluate e req w)) =
        generate_calls w @ [(lane w, generate_params e req (prompt_of req))] \<and>
      length (chunks (fst (evaluate e req w))) \<le> 1 \<and>
      (raised (fst (evaluate e req w)) = None \<longrightarrow> length (chunks (fst (evaluate e req w))) = 1) \<and>
      (raised (fst (evaluate e req w)) \<noteq> None \<longrightarrow> chunks (fst (evaluate e req w)) = []) \<and>
      (\<forall>s others.
         result (generate e (generate_params e req (prompt_of req))) = Inr (s # others) \<and>
         contains ''### Response:'' (decode e s) \<longrightarrow>
           fst (evaluate e req w) = \<lparr>chunks = [chunk_of e s], raised = None\<rparr>))"
proof (cases "stream_output req")
  case True
  then show ?thesis
    by (simp add: evaluate_def evaluate_prompt Iteratorize_def generate_with_callback_params
        Let_def split: prod.splits sum.splits)
next
  case False
  have a: "generate_calls (snd (evaluate e req w)) =
        generate_calls w @ [(lane w, generate_params e req (prompt_of req))]"
    and b: "iteratorize_calls (snd (evaluate e req w)) = iteratorize_calls w"
    and c: "length (chunks (fst (evaluate e req w))) \<le> 1"
    and d: "raised (fst (evaluate e req w)) = None \<longrightarrow> length (chunks (fst (evaluate e req w))) = 1"
    and d': "raised (fst (evaluate e req w)) \<noteq> None \<longrightarrow> chunks (fst (evaluate e req w)) = []"
    using False
    by (simp_all add: evaluate_def evaluate_prompt model_generate_def Let_def
        split: prod.splits sum.splits list.splits)
  have f: "fst (evaluate e req w) = \<lparr>chunks = [chunk_of e s], raised = None\<rparr>"
    if r: "result (generate e (generate_params e req (prompt_of req))) = Inr (s # others)"
      and k: "contains ''### Response:'' (decode e s)" for s others
  proof -
    obtain chunk where g: "get_response (Prompter None) (decode e s) = Inr chunk"
      using get_response_contains[OF k] by blast
    then have "chunk_of e s = chunk" by (simp add: chunk_of_def)
    then show ?thesis
      using False r g by (simp add: evaluate_def evaluate_prompt model_generate_def Let_def)
  qed
  show ?thesis using False a b c d d' f by simp
qed

theorem adapter_iff_stream_output_witness:
  "\<not> stream_output (toy_request False) \<and>
   raised (fst (evaluate toy_env (toy_request False) new_world)) = None \<and>
   chunks (fst (evaluate toy_env (toy_request False) new_world)) = [''aa</s>''] \<and>
   iteratorize_calls (snd (evaluate toy_env (toy_request False) new_world)) = [] \<and>
   length (generate_calls (snd (evaluate toy_env (toy_request False) new_world))) = 1 \<and>
   length (iteratorize_calls (snd (evaluate toy_env (toy_request True) new_world))) = 1"
proof -
  have s: "\<not> stream_output (toy_request False)" "stream_output (toy_request True)"
    by (simp_all add: toy_request_def)
  have w: "generate_calls new_world = []" "iteratorize_calls new_world = []"
    by (simp_all add: new_world_def)
  have g: "result (generate toy_env kw) = Inr [[7, 1, 1, 2]]" for kw
    by (simp add: toy_env_def)
  have r: "get_response (Prompter None) (decode toy_env [7, 1, 1, 2]) = Inr ''aa</s>''"
    by (simp add: toy_env_def toy_decode_def get_response_def Prompter_def split_def strip_def
        isspace_def)
  have c: "fst (evaluate toy_env (toy_request False) new_world)
             = \<lparr>chunks = [''aa</s>''], raised = None\<rparr>"
    using s(1) g r by (rule evaluate_sync)
  show ?thesis
    using adapter_iff_stream_output[of toy_env "toy_request False" new_world]
      adapter_iff_stream_output[of toy_env "toy_request True" new_world] s w c
    by simp
qed

text \<open>
  The claim as first stated fails where it promises a response for every request that is
  not streamed: when \<open>model.generate\<close> raises, or when the decoded text has no
  separator and \<open>get_response\<close> raises \<open>IndexError\<close>, the one synchronous call is
  made and nothing is yielded.
\<close>

theorem evaluate_sync_counterexample:
  "\<not> stream_output (toy_request False) \<and>
   chunks (fst (evaluate raising_env (toy_request False) new_world)) = [] \<and>
   raised (fst (evaluate raising_env (toy_request False) new_world))
     = Some (RuntimeError ''out of memory'') \<and>
   length (generate_calls (snd (evaluate raising_env (toy_request False) new_world))) = 1 \<and>
   chunks (fst (evaluate mute_env (toy_request False) new_world)) = [] \<and>
   raised (fst (evaluate mute_env (toy_request False) new_world)) = Some IndexError \<and>
   length (generate_calls (snd (evaluate mute_env (toy_request False) new_world))) = 1"
proof -
  have s: "\<not> stream_output (toy_request False)" by (simp add: toy_request_def)
  have g: "result (generate raising_env kw) = Inl (RuntimeError ''out of memory'')" for kw
    by (simp add: raising_env_def)
  have a: "evaluate raising_env (toy_request False) new_world =
             (\<lparr>chunks = [], raised = Some (RuntimeError ''out of memory'')\<rparr>,
              new_world\<lparr>generate_calls := generate_calls new_world @
                 [(lane new_world,
                   generate_params raising_env (toy_request False) (prompt_of (toy_request False)))]\<rparr>)"
    using s g by (simp add: evaluate_def evaluate_prompt model_generate_def Let_def)
  have h: "result (generate mute_env kw) = Inr [[7, 1, 1, 2]]" for kw
    by (simp add: mute_env_def toy_env_def)
  have r: "get_response (Prompter None) (decode mute_env [7, 1, 1, 2]) = Inl IndexError"
    by (simp add: mute_env_def get_response_def Prompter_def split_def)
  have b: "evaluate mute_env (toy_request False) new_world =
             (\<lparr>chunks = [], raised = Some IndexError\<rparr>,
              new_world\<lparr>generate_calls := generate_calls new_world @
                 [(lane new_world,
                   generate_params mute_env (toy_request False) (prompt_of (toy_request False)))]\<rparr>)"
    using s h r by (simp add: evaluate_def evaluate_prompt model_generate_def Let_def)
  have w: "generate_calls new_world = []" by (simp add: new_world_def)
  show ?thesis unfolding a b using s w by simp
qed

section \<open>Properties of the streaming adapter\<close>

lemmas step_defs = work_def take_def cancel_def put_def capacity_def

lemma marker_ok_terminal: "marker_ok a m \<Longrightarrow> terminal m"
  by (cases m) auto

lemma outputs_in_terminal: "terminal m \<Longrightarrow> outputs_in [m] = []"
  by (cases m) auto

lemma marker_ok_update [simp]:
  "marker_ok (a\<lparr>channel := c\<rparr>) m = marker_ok a m"
  "marker_ok (a\<lparr>worker := w\<rparr>) m = marker_ok a m"
  "marker_ok (a\<lparr>consumer := k\<rparr>) m = marker_ok a m"
  "marker_ok (a\<lparr>observed := os\<rparr>) m = marker_ok a m"
  "marker_ok (a\<lparr>received := rs\<rparr>) m = marker_ok a m"
  "marker_ok (a\<lparr>published := ps\<rparr>) m = marker_ok a m"
  "marker_ok (a\<lparr>steps_after_stop := n\<rparr>) m = marker_ok a m"
  by (cases m; simp)+

lemma marker_ok_stop: "marker_ok a m \<Longrightarrow> marker_ok (a\<lparr>stop_flag := True\<rparr>) m"
  by (cases m) auto

lemma work_history:
  assumes "work a = Some b" and "inv_history outputs a" and "inv_markers a"
  shows "inv_history outputs b"
  using assms
  by (auto simp: step_defs inv_history_def inv_markers_def outputs_in_terminal marker_ok_terminal
      split: worker_state.splits list.splits if_splits)

lemma take_history:
  assumes "take a = Some b" and "inv_history outputs a"
  shows "inv_history outputs b"
  using assms
  by (auto simp: step_defs inv_history_def split: list.splits consumer_state.splits item.splits)

lemma cancel_history:
  assumes "cancel a = Some b" and "inv_history outputs a"
  shows "inv_history outputs b"
  using assms by (auto simp: step_defs inv_history_def split: if_splits)

lemma work_markers:
  assumes "work a = Some b" and "inv_markers a"
  shows "inv_markers b"
  using assms
  by (auto simp: step_defs inv_markers_def marker_ok_terminal
      split: worker_state.splits list.splits if_splits option.splits)

lemma take_markers:
  assumes "take a = Some b" and "inv_markers a" and "length (channel a) \<le> 1"
  shows "inv_markers b"
  using assms
  by (auto simp: step_defs inv_markers_def
      split: list.splits consumer_state.splits item.splits)

lemma cancel_markers:
  assumes "cancel a = Some b" and "inv_markers a"
  shows "inv_markers b"
  using assms
  by (auto simp: step_defs inv_markers_def marker_ok_stop split: if_splits)

lemma work_consumer:
  assumes "work a = Some b" and "inv_consumer outputs a"
  shows "inv_consumer outputs b"
  using assms
  by (auto simp: step_defs inv_consumer_def
      split: worker_state.splits list.splits if_splits option.splits)

lemma take_consumer:
  assumes "take a = Some b" and "inv_consumer outputs a" and "inv_history outputs a"
    and "inv_markers a"
  shows "inv_consumer outputs b"
  using assms
  by (auto simp: step_defs inv_consumer_def inv_history_def inv_markers_def
      split: list.splits consumer_state.splits item.splits)

lemma cancel_consumer:
  assumes "cancel a = Some b" and "inv_consumer outputs a"
  shows "inv_consumer outputs b"
  using assms by (auto simp: step_defs inv_consumer_def split: if_splits)

lemma work_stop:
  assumes "work a = Some b" and "inv_stop a"
  shows "inv_stop b"
  using assms
  by (auto simp: step_defs inv_stop_def
      split: worker_state.splits list.splits if_splits option.splits)

lemma take_stop:
  assumes "take a = Some b" and "inv_stop a"
  shows "inv_stop b"
  using assms
  by (auto simp: step_defs inv_stop_def split: list.splits consumer_state.splits item.splits)

lemma cancel_stop:
  assumes "cancel a = Some b" and "inv_stop a" and "inv_markers a"
  shows "inv_stop b"
  using assms by (auto simp: step_defs inv_stop_def inv_markers_def split: if_splits)

lemma step_consistent:
  assumes "step x a = Some b" and "consistent outputs a"
  shows "consistent outputs b"
proof (cases x)
  case Work
  then have w: "work a = Some b" using assms(1) by simp
  show ?thesis
    using assms(2) work_history[OF w] work_markers[OF w] work_consumer[OF w] work_stop[OF w]
    by (simp add: consistent_def)
next
  case Take
  then have t: "take a = Some b" using assms(1) by simp
  have "length (channel a) \<le> 1" using assms(2) by (simp add: consistent_def inv_history_def)
  then show ?thesis
    using assms(2) take_history[OF t] take_markers[OF t] take_consumer[OF t] take_stop[OF t]
    by (simp add: consistent_def)
next
  case Cancel
  then have c: "cancel a = Some b" using assms(1) by simp
  show ?thesis
    using assms(2) cancel_history[OF c] cancel_markers[OF c] cancel_consumer[OF c]
      cancel_stop[OF c]
    by (simp add: consistent_def)
qed

lemma start_consistent: "consistent outputs (start outputs e)"
  by (simp add: consistent_def inv_history_def inv_markers_def inv_consumer_def inv_stop_def
      start_def)

lemma run_consistent:
  "run xs a = Some b \<Longrightarrow> consistent outputs a \<Longrightarrow> consistent outputs b"
proof (induction xs arbitrary: a)
  case Nil
  then show ?case by simp
next
  case (Cons x xs)
  then obtain a' where s: "step x a = Some a'" and r: "run xs a' = Some b"
    by (auto split: option.splits)
  have "consistent outputs a'" using s Cons.prems(2) by (rule step_consistent)
  then show ?case using Cons.IH[OF r] by simp
qed

lemma step_remaining:
  assumes "step x a = Some b"
  shows "remaining b < remaining a"
proof (cases x)
  case Work
  then show ?thesis using assms
    by (auto simp: step_defs remaining_def split: worker_state.splits list.splits if_splits)
next
  case Take
  then show ?thesis using assms
    by (auto simp: step_defs remaining_def split: list.splits consumer_state.splits item.splits)
next
  case Cancel
  then show ?thesis using assms by (auto simp: step_defs remaining_def split: if_splits)
qed

lemma run_remaining: "run xs a = Some b \<Longrightarrow> length xs + remaining b \<le> remaining a"
proof (induction xs arbitrary: a)
  case Nil
  then show ?case by simp
next
  case (Cons x xs)
  then obtain a' where s: "step x a = Some a'" and r: "run xs a' = Some b"
    by (auto split: option.splits)
  have "length xs + remaining b \<le> remaining a'" using Cons.IH[OF r] .
  moreover have "remaining a' < remaining a" using s by (rule step_remaining)
  ultimately show ?case by simp
qed

lemma run_bounded: "run xs (start outputs e) = Some a \<Longrightarrow> length xs \<le> 4 * length outputs + 4"
  using run_remaining[of xs "start outputs e" a] by (simp add: remaining_def start_def)

lemma no_deadlock:
  assumes "consistent outputs a" and "work a = None" and "take a = None"
  shows "worker a = Exited \<and> ended (consumer a)"
  using assms
  by (auto simp: step_defs consistent_def inv_markers_def inv_history_def
      split: worker_state.splits list.splits if_splits option.splits consumer_state.splits
        item.splits)







text \<open>
  Claim C6. In every state the adapter reaches the channel holds at most one item; the
  step outputs put so far are those taken so far followed by the one in the channel, so
  that step k+1 has been put only if step k has been taken; and a put on a channel that
  holds an item is not enabled.
\<close>

theorem channel_capacity_one:
  assumes "run xs (start outputs e) = Some a"
  shows "length (channel a) \<le> 1 \<and>
         published a = received a @ outputs_in (channel a) \<and>
         length (published a) \<le> length (received a) + 1 \<and>
         (channel a \<noteq> [] \<longrightarrow> put m a = None)"
proof -
  have c: "consistent outputs a"
    using assms start_consistent by (rule run_consistent)
  then have l: "length (channel a) \<le> 1"
    and p: "published a = received a @ outputs_in (channel a)"
    by (simp_all add: consistent_def inv_history_def)
  have "length (outputs_in (channel a)) \<le> 1"
    using l by (cases "channel a" rule: outputs_in.cases) auto
  then have "length (published a) \<le> length (received a) + 1" using p by simp
  moreover have "channel a \<noteq> [] \<longrightarrow> put m a = None"
    by (cases "channel a") (auto simp: put_def capacity_def)
  ultimately show ?thesis using l p by blast
qed

theorem channel_capacity_one_witness:
  "run [Work, Work, Work, Work] (start [[1], [1, 2]] None) =
     Some \<lparr> script = [], call_end = None, worker = Publishing [1, 2],
            channel = [StepOutput [1]], stop_flag = False, consumer = Pulling,
            observed = [], published = [[1]], received = [], steps_after_stop = 0 \<rparr> \<and>
   run [Work, Work, Work, Work, Work] (start [[1], [1, 2]] None) = None \<and>
   put (StepOutput [1, 2])
       \<lparr> script = [], call_end = None, worker = Publishing [1, 2],
         channel = [StepOutput [1]], stop_flag = False, consumer = Pulling,
         observed = [], published = [[1]], received = [], steps_after_stop = 0 \<rparr> = None"
proof -
  have r: "run [Work, Work, Work, Work] (start [[1], [1, 2]] None) =
     Some \<lparr> script = [], call_end = None, worker = Publishing [1, 2],
            channel = [StepOutput [1]], stop_flag = False, consumer = Pulling,
            observed = [], published = [[1]], received = [], steps_after_stop = 0 \<rparr>"
    by (simp add: start_def step_defs)
  have b: "run [Work, Work, Work, Work, Work] (start [[1], [1, 2]] None) = None"
    by (simp add: start_def step_defs)
  show ?thesis
    using channel_capacity_one[OF r, of "StepOutput [1, 2]"] r b by simp
qed

text \<open>
  Claim C7. In every state the adapter reaches, at most one generation step has been
  executed since the stop flag was set; the bridge, checking a set flag, ends the call
  with the stop acknowledgement; the worker is never left blocked on a put (when it
  cannot move and has not exited, the consumer can take); no schedule has more than
  4N + 4 actions; and when no lane can move any more the worker has exited, and after a
  stop the consumer is cancelled.
\<close>

theorem cooperative_cancellation:
  assumes "run xs (start outputs e) = Some a"
  shows "steps_after_stop a \<le> 1 \<and>
         (stop_flag a \<and> worker a = Checking \<longrightarrow>
            step Work a = Some (a\<lparr>worker := Finishing StopAcknowledged\<rparr>)) \<and>
         (step Work a = None \<and> worker a \<noteq> Exited \<longrightarrow> step Take a \<noteq> None) \<and>
         (step Work a = None \<and> step Take a = None \<longrightarrow>
            worker a = Exited \<and> (stop_flag a \<longrightarrow> consumer a = Cancelled)) \<and>
         length xs \<le> 4 * length outputs + 4"
proof -
  have c: "consistent outputs a"
    using assms start_consistent by (rule run_consistent)
  have s: "steps_after_stop a \<le> 1" using c by (simp add: consistent_def inv_stop_def)
  have k: "stop_flag a \<and> worker a = Checking \<longrightarrow>
            step Work a = Some (a\<lparr>worker := Finishing StopAcknowledged\<rparr>)"
    by (simp add: work_def)
  have d: "step Work a = None \<and> step Take a = None \<longrightarrow>
            worker a = Exited \<and> (stop_flag a \<longrightarrow> consumer a = Cancelled)"
    using no_deadlock[OF c] c
    by (cases "consumer a") (auto simp: consistent_def inv_markers_def)
  have t: "step Work a = None \<and> worker a \<noteq> Exited \<longrightarrow> step Take a \<noteq> None"
    using no_deadlock[OF c] by auto
  show ?thesis using s k d t run_bounded[OF assms] by blast
qed

theorem cooperative_cancellation_witness:
  "run cancelling_schedule (start [[1], [1, 2], [1, 2, 3]] None) =
     Some \<lparr> script = [[1, 2, 3]], call_end = None, worker = Exited, channel = [],
            stop_flag = True, consumer = Cancelled, observed = [[1]],
            published = [[1], [1, 2]], received = [[1], [1, 2]], steps_after_stop = 1 \<rparr> \<and>
   steps_after_stop \<lparr> script = [[1, 2, 3]], call_end = None, worker = Exited, channel = [],
            stop_flag = True, consumer = Cancelled, observed = [[1]],
            published = [[1], [1, 2]], received = [[1], [1, 2]], steps_after_stop = 1 \<rparr> \<le> 1 \<and>
   length cancelling_schedule \<le> 4 * length [[1], [1, 2], [1, 2, 3 :: int]] + 4"
proof -
  have r: "run cancelling_schedule (start [[1], [1, 2], [1, 2, 3]] None) =
     Some \<lparr> script = [[1, 2, 3]], call_end = None, worker = Exited, channel = [],
            stop_flag = True, consumer = Cancelled, observed = [[1]],
            published = [[1], [1, 2]], received = [[1], [1, 2]], steps_after_stop = 1 \<rparr>"
    by (simp add: cancelling_schedule_def start_def step_defs)
  show ?thesis
    using cooperative_cancellation[OF r] r by simp
qed


end
